theory Spec2Isabelle
  imports Complex_Main "HOL-Library.Char_ord" "HOL-Library.List_Lexorder"
begin

section \<open>Python values\<close>

text \<open>
  Python's \<open>str\<close> and \<open>bytes\<close> are both lists of \<open>char\<close>: a \<open>char\<close> is one byte of a
  \<open>bytes\<close> value and one code point of a \<open>str\<close>. The model is of ASCII text, where the two
  agree and \<open>encode("utf-8")\<close> is the identity. Strings are ordered as Python orders them,
  lexicographically by code point.
\<close>

type_synonym bytes = string

definition code_point :: "char \<Rightarrow> nat" where
  "code_point c = of_char c"

definition digit_char :: "nat \<Rightarrow> char" where
  "digit_char d = char_of (48 + d)"

text \<open>\<open>str(n)\<close> for an integer: decimal digits, a minus sign for a negative one.\<close>

fun str_nat :: "nat \<Rightarrow> string" where
  "str_nat n = (if n < 10 then [digit_char n] else str_nat (n div 10) @ [digit_char (n mod 10)])"

definition str_int :: "int \<Rightarrow> string" where
  "str_int i = (if i < 0 then CHR ''-'' # str_nat (nat (- i)) else str_nat (nat i))"

text \<open>\<open>sep.join(xs)\<close>\<close>

fun join :: "string \<Rightarrow> string list \<Rightarrow> string" where
  "join sep [] = []"
| "join sep [x] = x"
| "join sep (x # y # ys) = x @ sep @ join sep (y # ys)"

text \<open>
  \<open>s.upper()\<close> on ASCII text: the letters from \<open>a\<close> to \<open>z\<close> go to upper case, every other
  character stays. On other text Python's \<open>upper\<close> does more (it maps accented letters too,
  and can change the length), so what is proved through \<open>upper\<close> is stated for ASCII strings.
\<close>

definition upper_char :: "char \<Rightarrow> char" where
  "upper_char c = (if 97 \<le> code_point c \<and> code_point c \<le> 122 then char_of (code_point c - 32) else c)"

definition upper :: "string \<Rightarrow> string" where
  "upper s = map upper_char s"

text \<open>
  The regular expression class \<open>\w\<close> on ASCII text: letters, digits and the underscore.
  In a \<open>str\<close> pattern Python's \<open>\w\<close> also matches the word characters outside ASCII, so
  what is proved through \<open>is_word_char\<close> is stated for ASCII strings.
\<close>

definition is_word_char :: "char \<Rightarrow> bool" where
  "is_word_char c =
     ((48 \<le> code_point c \<and> code_point c \<le> 57) \<or> (65 \<le> code_point c \<and> code_point c \<le> 90)
      \<or> (97 \<le> code_point c \<and> code_point c \<le> 122) \<or> code_point c = 95)"

section \<open>Job statuses and errors\<close>

text \<open>
  Modelled from the spec: the enumeration \<open>ComputeHordeJobStatus\<close> and its method
  \<open>is_in_progress\<close> live in \<open>_internal/models.py\<close>, which is not among the sources. The spec
  gives the statuses \<open>PENDING\<close>, \<open>RUNNING\<close>, \<open>COMPLETED\<close>, \<open>FAILED\<close>, \<open>REJECTED\<close>, the first two
  in progress and the other three terminal.
\<close>

datatype ComputeHordeJobStatus = PENDING | RUNNING | COMPLETED | FAILED | REJECTED

fun is_in_progress :: "ComputeHordeJobStatus \<Rightarrow> bool" where
  "is_in_progress PENDING = True"
| "is_in_progress RUNNING = True"
| "is_in_progress COMPLETED = False"
| "is_in_progress FAILED = False"
| "is_in_progress REJECTED = False"

text \<open>
  Every exception the modelled code can raise. \<open>exceptions.py\<close> declares two classes,
  \<open>ComputeHordeError\<close> and its subclass \<open>ComputeHordeJobTimeoutError\<close>; the others are
  Python's and pydantic's. \<open>ComputeHordeError\<close> carries its message. The message of
  \<open>ComputeHordeJobTimeoutError\<close> is an f-string over the job's uuid, the timeout and the
  job's status: the constructor carries these three values. \<open>BackendError\<close> stands for
  whatever the signing backend raises.
\<close>

datatype error =
    ComputeHordeError string
  | ComputeHordeJobTimeoutError string real ComputeHordeJobStatus
  | PydanticValidationError
  | BinasciiError string
  | OverflowError
  | ValueError string
  | BackendError string

text \<open>The Python class of an exception, which is what an \<open>except\<close> clause tells apart.\<close>

datatype error_class =
    ComputeHordeError_class
  | ComputeHordeJobTimeoutError_class
  | PydanticValidationError_class
  | BinasciiError_class
  | OverflowError_class
  | ValueError_class
  | BackendError_class

fun class_of :: "error \<Rightarrow> error_class" where
  "class_of (ComputeHordeError m) = ComputeHordeError_class"
| "class_of (ComputeHordeJobTimeoutError u t s) = ComputeHordeJobTimeoutError_class"
| "class_of PydanticValidationError = PydanticValidationError_class"
| "class_of (BinasciiError m) = BinasciiError_class"
| "class_of OverflowError = OverflowError_class"
| "class_of (ValueError m) = ValueError_class"
| "class_of (BackendError m) = BackendError_class"

section \<open>JSON values and their serialisers\<close>

text \<open>
  pydantic's \<open>JsonValue\<close>. A dict is the list of its items in insertion order, which is
  the order Python iterates it in. A float is held as the text \<open>float.__repr__\<close> gives,
  which is how both serialisers write it.
\<close>

datatype json =
    JNull
  | JBool bool
  | JInt int
  | JFloat string
  | JStr string
  | JList "json list"
  | JDict "(string \<times> json) list"

definition hex_digit :: "nat \<Rightarrow> char" where
  "hex_digit d = (if d < 10 then char_of (48 + d) else char_of (87 + d))"

definition u_escape :: "char \<Rightarrow> string" where
  "u_escape c = [CHR 0x5C, CHR ''u'', CHR ''0'', CHR ''0'',
                 hex_digit (code_point c div 16), hex_digit (code_point c mod 16)]"

definition short_escape :: "char \<Rightarrow> string option" where
  "short_escape c =
     (if c = CHR 0x22 then Some [CHR 0x5C, CHR 0x22]
      else if c = CHR 0x5C then Some [CHR 0x5C, CHR 0x5C]
      else if c = CHR 0x0A then Some [CHR 0x5C, CHR ''n'']
      else if c = CHR 0x0D then Some [CHR 0x5C, CHR ''r'']
      else if c = CHR 0x09 then Some [CHR 0x5C, CHR ''t'']
      else if c = CHR 0x08 then Some [CHR 0x5C, CHR ''b'']
      else if c = CHR 0x0C then Some [CHR 0x5C, CHR ''f'']
      else None)"

text \<open>
  \<open>json.dumps\<close> with \<open>ensure_ascii\<close> (its default) escapes the quote, the backslash and
  every character outside the range from the space to the tilde.
\<close>

definition python_escape :: "char \<Rightarrow> string" where
  "python_escape c =
     (case short_escape c of
        Some e \<Rightarrow> e
      | None \<Rightarrow> if 32 \<le> code_point c \<and> code_point c \<le> 126 then [c] else u_escape c)"

text \<open>
  pydantic's JSON writer escapes the quote, the backslash and the control characters
  below the space.
\<close>

definition pydantic_escape :: "char \<Rightarrow> string" where
  "pydantic_escape c =
     (case short_escape c of
        Some e \<Rightarrow> e
      | None \<Rightarrow> if 32 \<le> code_point c then [c] else u_escape c)"

record json_style =
  item_separator :: string
  key_separator :: string
  sort_keys :: bool
  escape :: "char \<Rightarrow> string"

definition encode_str :: "json_style \<Rightarrow> string \<Rightarrow> string" where
  "encode_str st s = CHR 0x22 # concat (map (escape st) s) @ [CHR 0x22]"

text \<open>
  The encoder both serialisers share. With \<open>sort_keys\<close> the items of every dict are
  written in the order of their keys (\<open>sorted(dct.items())\<close>); without, in insertion
  order.
\<close>

function (sequential) encode :: "json_style \<Rightarrow> json \<Rightarrow> string" where
  "encode st JNull = ''null''"
| "encode st (JBool b) = (if b then ''true'' else ''false'')"
| "encode st (JInt i) = str_int i"
| "encode st (JFloat r) = r"
| "encode st (JStr s) = encode_str st s"
| "encode st (JList xs) = ''['' @ join (item_separator st) (map (encode st) xs) @ '']''"
| "encode st (JDict kvs) =
     ''{'' @ join (item_separator st)
        (map (\<lambda>kv. encode_str st (fst kv) @ key_separator st @ encode st (snd kv))
           (if sort_keys st then sort_key fst kvs else kvs)) @ ''}''"
  by pat_completeness auto
termination
proof (relation "measure (\<lambda>(st, j). size j)")
  show "wf (measure (\<lambda>(st, j). size j))" by simp
next
  fix st :: json_style and xs :: "json list" and x :: json
  assume "x \<in> set xs"
  then have "size x < Suc (size_list size xs)"
    by (induction xs) auto
  then show "((st, x), (st, JList xs)) \<in> measure (\<lambda>(st, j). size j)" by simp
next
  fix st :: json_style and kvs :: "(string \<times> json) list" and x :: "string \<times> json"
  assume "x \<in> set (if sort_keys st then sort_key fst kvs else kvs)"
  then have mem: "x \<in> set kvs" by (simp split: if_splits)
  have "f x \<le> size_list f kvs" for f :: "string \<times> json \<Rightarrow> nat"
    using mem by (induction kvs) auto
  from this [of "size_prod (\<lambda>x. 0) size"]
  have "size (snd x) < Suc (size_list (size_prod (\<lambda>x. 0) size) kvs)"
    by (simp add: size_prod_simp)
  then show "((st, snd x), (st, JDict kvs)) \<in> measure (\<lambda>(st, j). size j)" by simp
qed

text \<open>\<open>json.dumps(obj, sort_keys=...)\<close>, with Python's default separators.\<close>

definition json_dumps :: "bool \<Rightarrow> json \<Rightarrow> string" where
  "json_dumps sk j =
     encode \<lparr>item_separator = '', '', key_separator = '': '', sort_keys = sk,
             escape = python_escape\<rparr> j"

text \<open>pydantic's compact JSON text of a value: no spaces, insertion order.\<close>

definition pydantic_json :: "json \<Rightarrow> string" where
  "pydantic_json j =
     encode \<lparr>item_separator = '','', key_separator = '':'', sort_keys = False,
             escape = pydantic_escape\<rparr> j"

section \<open>Base64 (Python's \<open>base64\<close> and \<open>binascii\<close>)\<close>

definition b64_char :: "nat \<Rightarrow> char" where
  "b64_char v =
     (if v < 26 then char_of (65 + v)
      else if v < 52 then char_of (71 + v)
      else if v < 62 then char_of (v - 4)
      else if v = 62 then CHR ''+'' else CHR ''/'')"

text \<open>\<open>base64.b64encode\<close>: three bytes to four characters, padded with \<open>=\<close>.\<close>

fun b64encode :: "bytes \<Rightarrow> string" where
  "b64encode [] = []"
| "b64encode [a] =
     [b64_char (code_point a div 4), b64_char (code_point a mod 4 * 16), CHR ''='', CHR ''='']"
| "b64encode [a, b] =
     [b64_char (code_point a div 4), b64_char (code_point a mod 4 * 16 + code_point b div 16),
      b64_char (code_point b mod 16 * 4), CHR ''='']"
| "b64encode (a # b # c # rest) =
     [b64_char (code_point a div 4), b64_char (code_point a mod 4 * 16 + code_point b div 16),
      b64_char (code_point b mod 16 * 4 + code_point c div 64), b64_char (code_point c mod 64)]
     @ b64encode rest"

text \<open>
  The decoding table of \<open>binascii\<close>: the value of a character of the base64 alphabet,
  \<open>None\<close> for every other character.
\<close>

definition b64_value :: "char \<Rightarrow> nat option" where
  "b64_value c =
     (if 65 \<le> code_point c \<and> code_point c \<le> 90 then Some (code_point c - 65)
      else if 97 \<le> code_point c \<and> code_point c \<le> 122 then Some (code_point c - 71)
      else if 48 \<le> code_point c \<and> code_point c \<le> 57 then Some (code_point c + 4)
      else if c = CHR ''+'' then Some 62
      else if c = CHR ''/'' then Some 63
      else None)"

text \<open>
  \<open>base64.b64decode(s)\<close> is \<open>binascii.a2b_base64(s)\<close> outside strict mode, since
  \<open>validate\<close> defaults to \<open>False\<close>. The state of its loop: the position in the current group
  of four characters, the bits left over from the last character, the padding characters
  counted, and the bytes written. The shifts and the bitwise or of the C code are written
  as multiplications and sums, the bits they join being disjoint.
\<close>

record a2b_state =
  quad_pos :: nat
  leftchar :: nat
  pads :: nat
  bin_data :: bytes

definition a2b_init :: a2b_state where
  "a2b_init = \<lparr>quad_pos = 0, leftchar = 0, pads = 0, bin_data = []\<rparr>"

definition a2b_data :: "a2b_state \<Rightarrow> nat \<Rightarrow> a2b_state" where
  "a2b_data s v =
     (if quad_pos s = 0 then s\<lparr>quad_pos := 1, leftchar := v, pads := 0\<rparr>
      else if quad_pos s = 1 then
        s\<lparr>quad_pos := 2, leftchar := v mod 16, pads := 0,
          bin_data := bin_data s @ [char_of (leftchar s * 4 + v div 16)]\<rparr>
      else if quad_pos s = 2 then
        s\<lparr>quad_pos := 3, leftchar := v mod 4, pads := 0,
          bin_data := bin_data s @ [char_of (leftchar s * 16 + v div 4)]\<rparr>
      else
        s\<lparr>quad_pos := 0, leftchar := 0, pads := 0,
          bin_data := bin_data s @ [char_of (leftchar s * 64 + v)]\<rparr>)"

text \<open>
  The loop over the input. A padding character that completes a group ends the decoding
  at once (the \<open>goto done\<close>): what follows it is not read. A character outside the
  alphabet is skipped. At the end of the input an open group is an error.
\<close>

fun a2b_loop :: "a2b_state \<Rightarrow> string \<Rightarrow> error + bytes" where
  "a2b_loop s [] =
     (if quad_pos s \<noteq> 0 then
        (if quad_pos s = 1 then
           Inl (BinasciiError ''Invalid base64-encoded string: number of data characters cannot be 1 more than a multiple of 4'')
         else Inl (BinasciiError ''Incorrect padding''))
      else Inr (bin_data s))"
| "a2b_loop s (c # cs) =
     (if c = CHR ''='' then
        (if 2 \<le> quad_pos s then
           (if 4 \<le> quad_pos s + (pads s + 1) then Inr (bin_data s)
            else a2b_loop (s\<lparr>pads := pads s + 1\<rparr>) cs)
         else a2b_loop s cs)
      else
        (case b64_value c of
           None \<Rightarrow> a2b_loop s cs
         | Some v \<Rightarrow> a2b_loop (a2b_data s v) cs))"

definition b64decode :: "string \<Rightarrow> error + bytes" where
  "b64decode s = a2b_loop a2b_init s"

section \<open>\<open>_compute_horde_models/signature.py\<close>\<close>

record Signature =
  signature_type :: string
  signatory :: string
  timestamp_ns :: int
  signature :: bytes

text \<open>
  The field validator of \<open>signature\<close>. pydantic turns the \<open>binascii.Error\<close> (a
  \<open>ValueError\<close>) that \<open>b64decode\<close> raises into its own \<open>ValidationError\<close>.
\<close>

definition validate_signature :: "string \<Rightarrow> error + bytes" where
  "validate_signature s =
     (case b64decode s of Inl e \<Rightarrow> Inl PydanticValidationError | Inr b \<Rightarrow> Inr b)"

definition serialize_signature :: "bytes \<Rightarrow> string" where
  "serialize_signature b = b64encode b"

text \<open>
  The constructor \<open>Signature(...)\<close>: the validator runs on the \<open>signature\<close> argument. A
  later assignment to the field is not validated (the model does not set
  \<open>validate_assignment\<close>).
\<close>

definition new_Signature :: "string \<Rightarrow> string \<Rightarrow> int \<Rightarrow> string \<Rightarrow> error + Signature" where
  "new_Signature ty who ts s =
     (case validate_signature s of
        Inl e \<Rightarrow> Inl e
      | Inr b \<Rightarrow> Inr \<lparr>signature_type = ty, signatory = who, timestamp_ns = ts, signature = b\<rparr>)"

record SignedFields =
  executor_class :: string
  docker_image :: string
  raw_script :: string
  args :: string
  env :: "(string \<times> string) list"
  use_gpu :: bool
  volumes :: "json list"
  uploads :: "json list"



text \<open>
  \<open>model_dump_json()\<close> of a \<open>SignedFields\<close>: pydantic writes the fields in the order the
  class declares them and the items of \<open>env\<close> in the order the dict holds them.
\<close>

definition SignedFields_json :: "SignedFields \<Rightarrow> json" where
  "SignedFields_json f =
     JDict [(''executor_class'', JStr (executor_class f)),
            (''docker_image'', JStr (docker_image f)),
            (''raw_script'', JStr (raw_script f)),
            (''args'', JStr (args f)),
            (''env'', JDict (map (\<lambda>kv. (fst kv, JStr (snd kv))) (env f))),
            (''use_gpu'', JBool (use_gpu f)),
            (''volumes'', JList (volumes f)),
            (''uploads'', JList (uploads f))]"

definition model_dump_json :: "SignedFields \<Rightarrow> string" where
  "model_dump_json f = pydantic_json (SignedFields_json f)"


text \<open>
  \<open>n.to_bytes(length, "big")\<close>: the big-endian bytes of a natural number, and
  \<open>OverflowError\<close> for a negative number or one that does not fit.
\<close>

fun be_bytes :: "nat \<Rightarrow> nat \<Rightarrow> bytes" where
  "be_bytes 0 n = []"
| "be_bytes (Suc k) n = be_bytes k (n div 256) @ [char_of (n mod 256)]"

definition to_bytes :: "int \<Rightarrow> nat \<Rightarrow> error + bytes" where
  "to_bytes n len =
     (if n < 0 \<or> 256 ^ len \<le> n then Inl OverflowError else Inr (be_bytes len (nat n)))"

text \<open>The payload of a signature: bytes, or a JSON value.\<close>

datatype payload = Bytes bytes | Json json

definition payload_bytes :: "payload \<Rightarrow> bytes" where
  "payload_bytes p = (case p of Bytes b \<Rightarrow> b | Json j \<Rightarrow> json_dumps True j)"

text \<open>
  A \<open>hashlib\<close> hasher collects what \<open>update\<close> is given and \<open>digest\<close> hashes all of it. The
  hash function \<open>H\<close> (BLAKE2b with its default digest size of 64 bytes) is a parameter.
\<close>

definition hasher_update :: "bytes \<Rightarrow> bytes \<Rightarrow> bytes" where
  "hasher_update h b = h @ b"

definition hash_message_signature :: "(bytes \<Rightarrow> bytes) \<Rightarrow> payload \<Rightarrow> Signature \<Rightarrow> error + bytes" where
  "hash_message_signature H p sg =
     (let pb = payload_bytes p in
      case to_bytes (timestamp_ns sg) 8 of
        Inl e \<Rightarrow> Inl e
      | Inr ts \<Rightarrow> Inr (H (hasher_update (hasher_update [] ts) pb)))"

text \<open>
  The substitution \<open>re.compile(r"^\w+://[^/]+").sub("", url)\<close>. Each \<open>+\<close> is greedy: it
  takes the longest run. A shorter run of word characters cannot help the match, because
  the character after it would be a word character and not the colon; and nothing
  follows the last run. The pattern is anchored at the start, so it matches at most once.
  \<open>match_url_scheme_n_host url\<close> is what is left of \<open>url\<close> after the match, when there is
  one.
\<close>

definition match_plus :: "(char \<Rightarrow> bool) \<Rightarrow> string \<Rightarrow> string option" where
  "match_plus p s = (if takeWhile p s = [] then None else Some (dropWhile p s))"

definition match_literal :: "string \<Rightarrow> string \<Rightarrow> string option" where
  "match_literal l s = (if take (length l) s = l then Some (drop (length l) s) else None)"

definition match_url_scheme_n_host :: "string \<Rightarrow> string option" where
  "match_url_scheme_n_host url =
     (case match_plus is_word_char url of
        None \<Rightarrow> None
      | Some r1 \<Rightarrow>
          (case match_literal ''://'' r1 of
             None \<Rightarrow> None
           | Some r2 \<Rightarrow> match_plus (\<lambda>c. c \<noteq> CHR ''/'') r2))"

definition remove_url_scheme_n_host :: "string \<Rightarrow> string" where
  "remove_url_scheme_n_host url =
     (case match_url_scheme_n_host url of None \<Rightarrow> url | Some rest \<Rightarrow> rest)"

definition signature_payload :: "string \<Rightarrow> string \<Rightarrow> (string \<times> string) list \<Rightarrow> json option \<Rightarrow> json" where
  "signature_payload meth url headers body =
     (let reduced_url = remove_url_scheme_n_host url in
      JDict [(''action'', JStr (upper meth @ '' '' @ reduced_url)),
             (''json'', (case body of None \<Rightarrow> JNull | Some j \<Rightarrow> j))])"

text \<open>
  A signer: the class attribute \<open>signature_type\<close> and the two abstract methods,
  \<open>get_signatory\<close> and \<open>_sign\<close> (here \<open>priv_sign\<close>), which may raise.
\<close>

record signer =
  scheme_type :: string
  get_signatory :: string
  priv_sign :: "bytes \<Rightarrow> error + bytes"

definition payload_from_request :: "string \<Rightarrow> string \<Rightarrow> (string \<times> string) list \<Rightarrow> json option \<Rightarrow> json" where
  "payload_from_request meth url headers body = signature_payload meth url headers body"

text \<open>
  \<open>Signer.sign\<close>. The reading of \<open>time.time_ns()\<close> is the argument \<open>now_ns\<close>. The
  provisional signature is built with the empty byte string, hashed, and then its
  \<open>signature\<close> field is assigned.
\<close>

definition sign :: "(bytes \<Rightarrow> bytes) \<Rightarrow> signer \<Rightarrow> int \<Rightarrow> payload \<Rightarrow> error + Signature" where
  "sign H sr now_ns p =
     (case new_Signature (scheme_type sr) (get_signatory sr) now_ns [] of
        Inl e \<Rightarrow> Inl e
      | Inr sg \<Rightarrow>
          (case hash_message_signature H p sg of
             Inl e \<Rightarrow> Inl e
           | Inr payload_hash \<Rightarrow>
               (case priv_sign sr payload_hash of
                  Inl e \<Rightarrow> Inl e
                | Inr b \<Rightarrow> Inr (sg\<lparr>signature := b\<rparr>))))"

definition signature_for_request ::
  "(bytes \<Rightarrow> bytes) \<Rightarrow> signer \<Rightarrow> int \<Rightarrow> string \<Rightarrow> string \<Rightarrow> (string \<times> string) list \<Rightarrow> json option
    \<Rightarrow> error + Signature" where
  "signature_for_request H sr now_ns meth url headers body =
     sign H sr now_ns (Json (payload_from_request meth url headers body))"

text \<open>
  \<open>BittensorWalletSigner\<close> over a keypair: the keypair's address and its signing
  operation, which belong to the \<open>bittensor\<close> library.
\<close>

record Keypair =
  ss58_address :: string
  keypair_sign :: "bytes \<Rightarrow> error + bytes"


section \<open>\<open>compute_horde_sdk/_internal/sdk.py\<close>\<close>

text \<open>
  \<open>FacilitatorJobResponse\<close> is declared in \<open>_internal/models.py\<close>, which is not among the
  sources: the record has the three fields that \<open>_from_response\<close> reads.
\<close>

record FacilitatorJobResponse =
  r_uuid :: string
  r_status :: ComputeHordeJobStatus
  r_stdout :: string

text \<open>
  A job. Its \<open>result\<close> is the \<open>stdout\<close> of a \<open>ComputeHordeJobResult\<close>, or \<open>None\<close>. The
  reference to the client is left out: the functions below take what they need of it.
\<close>

record ComputeHordeJob =
  uuid :: string
  status :: ComputeHordeJobStatus
  result :: "string option"

text \<open>
  A request as it is handed to the HTTP client (which adds the base URL and the
  authorisation header), and the response: its status code and its text.
\<close>

record request =
  req_method :: string
  req_url :: string
  req_json :: "json option"
  req_params :: "(string \<times> string) list"
  req_headers :: "(string \<times> string) list"

record response =
  status_code :: nat
  response_text :: string

text \<open>
  The state the code acts on: the wall clock, in seconds (what \<open>time.time()\<close> reads), and
  the requests sent so far.
\<close>

record world =
  clock :: real
  sent :: "request list"

text \<open>
  A Python \<open>float\<close>, the declared type of the two arguments of \<open>submit_feedback\<close>: a finite
  number (\<open>Finite 0\<close> is the positive zero), the negative zero, not-a-number, or one of the two
  infinities.
\<close>

datatype pyfloat = Finite real | NegZero | NaN | PosInf | NegInf

fun is_finite :: "pyfloat \<Rightarrow> bool" where
  "is_finite (Finite r) = True"
| "is_finite NegZero = True"
| "is_finite NaN = False"
| "is_finite PosInf = False"
| "is_finite NegInf = False"

text \<open>
  What the code takes from outside. The facilitator answers the \<open>k\<close>-th request with
  \<open>respond k\<close>, after \<open>round_trip k\<close> seconds; a transport that fails to deliver a response is
  not modelled. The sleep that follows \<open>k\<close> requests overruns by \<open>sleep_lag k\<close> seconds.
  \<open>model_validate_json\<close> is the parser of \<open>FacilitatorJobResponse\<close> (\<open>None\<close> when pydantic
  raises its \<open>ValidationError\<close>), \<open>blake2b\<close> the hash function and \<open>float_repr\<close> the text of
  a finite float (Python's \<open>repr\<close>). \<open>allow_nan\<close> is the setting with which the HTTP client
  calls \<open>json.dumps\<close> on the body of a request (httpx passes \<open>allow_nan=False\<close> from its
  version 0.28 on, and before that left Python's default, \<open>True\<close>), and \<open>nan_error\<close> the message
  of the \<open>ValueError\<close> that \<open>json.dumps\<close> raises for a float it refuses, which depends on the
  version of Python.
\<close>

record externals =
  respond :: "nat \<Rightarrow> request \<Rightarrow> response"
  round_trip :: "nat \<Rightarrow> real"
  sleep_lag :: "nat \<Rightarrow> real"
  model_validate_json :: "string \<Rightarrow> FacilitatorJobResponse option"
  blake2b :: "bytes \<Rightarrow> bytes"
  float_repr :: "real \<Rightarrow> string"
  allow_nan :: bool
  nan_error :: "pyfloat \<Rightarrow> string"

definition JOB_REFRESH_INTERVAL :: real where
  "JOB_REFRESH_INTERVAL = 3"


definition sleep :: "externals \<Rightarrow> real \<Rightarrow> world \<Rightarrow> world" where
  "sleep ext d w = w\<lparr>clock := clock w + d + sleep_lag ext (length (sent w))\<rparr>"

record ComputeHordeClient =
  hotkey :: Keypair
  facilitator_token :: string
  compute_horde_validator_hotkey :: "string option"
  job_queue :: "string option"
  facilitator_url :: string


text \<open>\<open>raise_for_status\<close> of httpx raises for every status code that is not a 2xx.\<close>

definition is_success :: "nat \<Rightarrow> bool" where
  "is_success code = (200 \<le> code \<and> code \<le> 299)"

definition from_response :: "FacilitatorJobResponse \<Rightarrow> ComputeHordeJob" where
  "from_response r =
     \<lparr>uuid = r_uuid r, status = r_status r,
      result = (if r_stdout r \<noteq> [] then Some (r_stdout r) else None)\<rparr>"

definition make_request ::
  "externals \<Rightarrow> world \<Rightarrow> string \<Rightarrow> string \<Rightarrow> json option \<Rightarrow> (string \<times> string) list
    \<Rightarrow> (string \<times> string) list \<Rightarrow> (error + string) \<times> world" where
  "make_request ext w meth url body params headers =
     (let req = \<lparr>req_method = meth, req_url = url, req_json = body, req_params = params,
                 req_headers = headers\<rparr>;
          k = length (sent w);
          resp = respond ext k req;
          w' = w\<lparr>clock := clock w + round_trip ext k, sent := sent w @ [req]\<rparr>
      in if is_success (status_code resp) then (Inr (response_text resp), w')
         else (Inl (ComputeHordeError
                 (''Compute Horde responded with status code '' @ str_nat (status_code resp))), w'))"


definition get_job :: "externals \<Rightarrow> world \<Rightarrow> string \<Rightarrow> (error + ComputeHordeJob) \<times> world" where
  "get_job ext w job_uuid =
     (case make_request ext w ''GET'' (''/jobs/'' @ job_uuid) None [] [] of
        (Inl e, w') \<Rightarrow> (Inl e, w')
      | (Inr txt, w') \<Rightarrow>
          (case model_validate_json ext txt of
             None \<Rightarrow> (Inl (ComputeHordeError ''Compute Horde returned malformed response''), w')
           | Some r \<Rightarrow> (Inr (from_response r), w')))"

definition refresh_from_facilitator ::
  "externals \<Rightarrow> world \<Rightarrow> ComputeHordeJob \<Rightarrow> (error + unit) \<times> world \<times> ComputeHordeJob" where
  "refresh_from_facilitator ext w job =
     (case get_job ext w (uuid job) of
        (Inl e, w') \<Rightarrow> (Inl e, w', job)
      | (Inr new_job, w') \<Rightarrow> (Inr (), w', job\<lparr>status := status new_job, result := result new_job\<rparr>))"

text \<open>
  The loop of \<open>wait\<close>. It may run forever (no timeout and a job that stays in progress),
  so it returns an option: \<open>None\<close> is not returning.
\<close>

partial_function (option) wait_loop ::
  "externals \<Rightarrow> real option \<Rightarrow> real \<Rightarrow> world \<Rightarrow> ComputeHordeJob
    \<Rightarrow> ((error + unit) \<times> world \<times> ComputeHordeJob) option" where
  "wait_loop ext timeout start_time w job =
     (if is_in_progress (status job) then
        (if (case timeout of None \<Rightarrow> False | Some t \<Rightarrow> clock w - start_time > t) then
           Some (Inl (ComputeHordeJobTimeoutError (uuid job) (the timeout) (status job)), w, job)
         else
           (case refresh_from_facilitator ext w job of
              (Inl e, w', job') \<Rightarrow> Some (Inl e, w', job')
            | (Inr u, w', job') \<Rightarrow>
                wait_loop ext timeout start_time (sleep ext JOB_REFRESH_INTERVAL w') job'))
      else Some (Inr (), w, job))"

definition wait ::
  "externals \<Rightarrow> real option \<Rightarrow> world \<Rightarrow> ComputeHordeJob
    \<Rightarrow> ((error + unit) \<times> world \<times> ComputeHordeJob) option" where
  "wait ext timeout w job = wait_loop ext timeout (clock w) w job"

text \<open>
  The JSON text of a float, as \<open>json.dumps\<close> writes it, and the encoding of the body of the
  feedback request, a dict of floats. \<open>_make_request\<close> hands the dict to the HTTP client's
  \<open>build_request\<close>, which encodes it with \<open>json.dumps\<close> before anything is sent: a float that
  is not finite is written as \<open>NaN\<close>, \<open>Infinity\<close> or \<open>-Infinity\<close> when \<open>allow_nan\<close> holds, and
  otherwise \<open>json.dumps\<close> raises \<open>ValueError\<close> at the first such float, which \<open>_make_request\<close>
  does not catch.
\<close>

fun float_text :: "externals \<Rightarrow> pyfloat \<Rightarrow> string" where
  "float_text ext (Finite r) = float_repr ext r"
| "float_text ext NegZero = ''-0.0''"
| "float_text ext NaN = ''NaN''"
| "float_text ext PosInf = ''Infinity''"
| "float_text ext NegInf = ''-Infinity''"

definition float_json :: "externals \<Rightarrow> pyfloat \<Rightarrow> error + json" where
  "float_json ext x =
     (if is_finite x \<or> allow_nan ext then Inr (JFloat (float_text ext x))
      else Inl (ValueError (nan_error ext x)))"

fun float_items :: "externals \<Rightarrow> (string \<times> pyfloat) list \<Rightarrow> error + (string \<times> json) list" where
  "float_items ext [] = Inr []"
| "float_items ext ((k, x) # kvs) =
     (case float_json ext x of
        Inl e \<Rightarrow> Inl e
      | Inr j \<Rightarrow> (case float_items ext kvs of Inl e \<Rightarrow> Inl e | Inr js \<Rightarrow> Inr ((k, j) # js)))"

definition submit_job_feedback ::
  "externals \<Rightarrow> world \<Rightarrow> string \<Rightarrow> pyfloat \<Rightarrow> pyfloat option \<Rightarrow> (error + unit) \<times> world" where
  "submit_job_feedback ext w job_uuid result_correctness expected_duration =
     (let d = [(''result_correctness'', result_correctness)]
              @ (case expected_duration of
                   None \<Rightarrow> []
                 | Some x \<Rightarrow> [(''expected_duration'', x)])
      in case float_items ext d of
           Inl e \<Rightarrow> (Inl e, w)
         | Inr js \<Rightarrow>
             (case make_request ext w ''PUT'' (''/jobs/'' @ job_uuid @ ''/feedback/'') (Some (JDict js)) [] [] of
                (Inl e, w') \<Rightarrow> (Inl e, w')
              | (Inr txt, w') \<Rightarrow> (Inr (), w')))"

definition submit_feedback ::
  "externals \<Rightarrow> world \<Rightarrow> ComputeHordeJob \<Rightarrow> pyfloat \<Rightarrow> pyfloat option \<Rightarrow> (error + unit) \<times> world" where
  "submit_feedback ext w job result_correctness expected_duration =
     submit_job_feedback ext w (uuid job) result_correctness expected_duration"

text \<open>
  The arguments of \<open>create_job\<close>. The volume classes are declared in \<open>models.py\<close>: their
  types are parameters, and so are the two conversions to the JSON of a volume and of an
  upload (\<open>to_compute_horde_volume(mount_path).model_dump()\<close> and
  \<open>to_compute_horde_output_upload(mount_path).model_dump()\<close>). \<open>executor_class\<close> is the
  text of the \<open>ExecutorClass\<close> value.
\<close>

record ('iv, 'ov) create_job_args =
  a_executor_class :: string
  a_job_namespace :: string
  a_docker_image :: string
  a_args :: "string list option"
  a_env :: "(string \<times> string) list option"
  a_artifacts_dir :: "string option"
  a_input_volumes :: "(string \<times> 'iv) list option"
  a_output_volumes :: "(string \<times> 'ov) list option"
  a_run_cross_validation :: bool
  a_deposition_comparison_method :: "string option"
  a_trusted_output_volumes :: "(string \<times> 'ov) list option"




section \<open>The properties, as the specification words them\<close>



text \<open>
  The 8-byte big-endian encoding of a number: the byte at position \<open>i\<close> from the left is
  the digit of weight \<open>256 ^ (7 - i)\<close>.
\<close>

definition big_endian_8 :: "int \<Rightarrow> bytes" where
  "big_endian_8 n = map (\<lambda>i. char_of (nat n div 256 ^ (7 - i) mod 256)) [0..<8]"

text \<open>
  A JSON value with the items of every dict, at every depth, put in the order of their
  keys; and the values whose dicts all have their keys in order.
\<close>

function (sequential) sort_dict_keys :: "json \<Rightarrow> json" where
  "sort_dict_keys (JList xs) = JList (map sort_dict_keys xs)"
| "sort_dict_keys (JDict kvs) =
     JDict (map (\<lambda>kv. (fst kv, sort_dict_keys (snd kv))) (sort_key fst kvs))"
| "sort_dict_keys j = j"
  by pat_completeness auto
termination
proof (relation "measure size")
  show "wf (measure size)" by simp
next
  fix xs :: "json list" and x :: json
  assume "x \<in> set xs"
  then have "size x < Suc (size_list size xs)"
    by (induction xs) auto
  then show "(x, JList xs) \<in> measure size" by simp
next
  fix kvs :: "(string \<times> json) list" and x :: "string \<times> json"
  assume "x \<in> set (sort_key fst kvs)"
  then have mem: "x \<in> set kvs" by simp
  have "f x \<le> size_list f kvs" for f :: "string \<times> json \<Rightarrow> nat"
    using mem by (induction kvs) auto
  from this [of "size_prod (\<lambda>x. 0) size"]
  have "size (snd x) < Suc (size_list (size_prod (\<lambda>x. 0) size) kvs)"
    by (simp add: size_prod_simp)
  then show "(snd x, JDict kvs) \<in> measure size" by simp
qed

function (sequential) keys_sorted :: "json \<Rightarrow> bool" where
  "keys_sorted (JList xs) = list_all keys_sorted xs"
| "keys_sorted (JDict kvs) = (sorted (map fst kvs) \<and> list_all (\<lambda>kv. keys_sorted (snd kv)) kvs)"
| "keys_sorted j = True"
  by pat_completeness auto
termination
proof (relation "measure size")
  show "wf (measure size)" by simp
next
  fix xs :: "json list" and x :: json
  assume "x \<in> set xs"
  then have "size x < Suc (size_list size xs)"
    by (induction xs) auto
  then show "(x, JList xs) \<in> measure size" by simp
next
  fix kvs :: "(string \<times> json) list" and x :: "string \<times> json"
  assume mem: "x \<in> set kvs"
  have "f x \<le> size_list f kvs" for f :: "string \<times> json \<Rightarrow> nat"
    using mem by (induction kvs) auto
  from this [of "size_prod (\<lambda>x. 0) size"]
  have "size (snd x) < Suc (size_list (size_prod (\<lambda>x. 0) size) kvs)"
    by (simp add: size_prod_simp)
  then show "(snd x, JDict kvs) \<in> measure size" by simp
qed

text \<open>
  Two JSON values that are equal up to the order in which their dicts hold their items:
  lists are compared item by item; two dicts have the same keys, each once, and under
  each key values that are equal in this sense again; every other value is equal to itself
  only. (A Python dict never holds a key twice.) Python's \<open>==\<close> on such values, which looks at
  no order of a dict, holds in all these cases.
\<close>

function (sequential) json_equal :: "json \<Rightarrow> json \<Rightarrow> bool" where
  "json_equal (JList xs) (JList ys) = list_all2 json_equal xs ys"
| "json_equal (JDict xs) (JDict ys) =
     (distinct (map fst xs) \<and> distinct (map fst ys) \<and> set (map fst xs) = set (map fst ys)
      \<and> (\<forall>kv\<in>set xs. \<forall>kv'\<in>set ys. fst kv = fst kv' \<longrightarrow> json_equal (snd kv) (snd kv')))"
| "json_equal x y = (x = y)"
  by pat_completeness auto
termination
proof (relation "measure (\<lambda>(x, y). size x)")
  show "wf (measure (\<lambda>(x, y). size x))" by simp
next
  fix xs ys :: "json list" and x y :: json
  assume "x \<in> set xs"
  then have "size x < Suc (size_list size xs)"
    by (induction xs) auto
  then show "((x, y), (JList xs, JList ys)) \<in> measure (\<lambda>(x, y). size x)" by simp
next
  fix xs ys :: "(string \<times> json) list" and kv kv' :: "string \<times> json"
  assume mem: "kv \<in> set xs"
  have "f kv \<le> size_list f xs" for f :: "string \<times> json \<Rightarrow> nat"
    using mem by (induction xs) auto
  from this [of "size_prod (\<lambda>x. 0) size"]
  have "size (snd kv) < Suc (size_list (size_prod (\<lambda>x. 0) size) xs)"
    by (simp add: size_prod_simp)
  then show "((snd kv, snd kv'), (JDict xs, JDict ys)) \<in> measure (\<lambda>(x, y). size x)" by simp
qed

text \<open>
  Two \<open>SignedFields\<close> values that are equal up to the order in which their dicts hold
  their items: the same text and flag fields, \<open>env\<close> dicts with the same keys and, under
  each key, the same string, and \<open>volumes\<close> and \<open>uploads\<close> that are equal item by item up to
  the order of the items of the dicts in them, at any depth.
\<close>

definition SignedFields_equal :: "SignedFields \<Rightarrow> SignedFields \<Rightarrow> bool" where
  "SignedFields_equal f g =
     (executor_class f = executor_class g \<and> docker_image f = docker_image g
      \<and> raw_script f = raw_script g \<and> args f = args g
      \<and> distinct (map fst (env f)) \<and> distinct (map fst (env g)) \<and> map_of (env f) = map_of (env g)
      \<and> use_gpu f = use_gpu g
      \<and> list_all2 json_equal (volumes f) (volumes g)
      \<and> list_all2 json_equal (uploads f) (uploads g))"

text \<open>
  The canonical bytes of a \<open>SignedFields\<close> value: what \<open>_get_signature_headers\<close> hands,
  through \<open>sign\<close>, to the digest function, which hashes them after the timestamp.
\<close>

definition signed_bytes :: "SignedFields \<Rightarrow> bytes" where
  "signed_bytes f = payload_bytes (Json (JStr (model_dump_json f)))"

text \<open>
  The request that \<open>get_job\<close> sends for a job, the request that \<open>submit_feedback\<close> sends
  for a correctness and an expected duration (which may be absent), the world after a
  request has been answered, and the error that \<open>_make_request\<close> raises for a status code.
\<close>

definition job_request :: "string \<Rightarrow> request" where
  "job_request job_uuid =
     \<lparr>req_method = ''GET'', req_url = ''/jobs/'' @ job_uuid, req_json = None, req_params = [],
      req_headers = []\<rparr>"

definition feedback_request :: "externals \<Rightarrow> string \<Rightarrow> pyfloat \<Rightarrow> pyfloat option \<Rightarrow> request" where
  "feedback_request ext job_uuid x d =
     \<lparr>req_method = ''PUT'', req_url = ''/jobs/'' @ job_uuid @ ''/feedback/'',
      req_json = Some (JDict ((''result_correctness'', JFloat (float_text ext x))
                   # (case d of None \<Rightarrow> [] | Some y \<Rightarrow> [(''expected_duration'', JFloat (float_text ext y))]))),
      req_params = [], req_headers = []\<rparr>"

definition after_request :: "externals \<Rightarrow> world \<Rightarrow> request \<Rightarrow> world" where
  "after_request ext w req =
     w\<lparr>clock := clock w + round_trip ext (length (sent w)), sent := sent w @ [req]\<rparr>"

definition status_error :: "nat \<Rightarrow> error" where
  "status_error code =
     ComputeHordeError (''Compute Horde responded with status code '' @ str_nat code)"

text \<open>
  A facilitator for the examples: it answers the \<open>k\<close>-th request with \<open>answers k\<close>, at
  once; the text of a response is the name of a status.
\<close>

definition example_parser :: "string \<Rightarrow> FacilitatorJobResponse option" where
  "example_parser s =
     (if s = ''PENDING'' then Some \<lparr>r_uuid = ''j1'', r_status = PENDING, r_stdout = []\<rparr>
      else if s = ''COMPLETED'' then Some \<lparr>r_uuid = ''j1'', r_status = COMPLETED, r_stdout = ''hi''\<rparr>
      else if s = ''FAILED'' then Some \<lparr>r_uuid = ''j1'', r_status = FAILED, r_stdout = []\<rparr>
      else None)"

definition example_externals :: "(nat \<Rightarrow> response) \<Rightarrow> externals" where
  "example_externals answers =
     \<lparr>respond = (\<lambda>k req. answers k), round_trip = (\<lambda>k. 0), sleep_lag = (\<lambda>k. 0),
      model_validate_json = example_parser, blake2b = (\<lambda>b. b),
      float_repr = (\<lambda>x. if x = 0 then ''0.0'' else if x = 1 then ''1.0''
                          else if x = 3 / 2 then ''1.5'' else ''?''),
      allow_nan = False,
      nan_error = (\<lambda>x. ''Out of range float values are not JSON compliant'')\<rparr>"

text \<open>
  A character of the base64 alphabet; and a string in standard padded base64: its length
  is a multiple of four, and it is a run of characters of the alphabet followed by at most
  two padding characters.
\<close>

definition is_b64_data :: "char \<Rightarrow> bool" where
  "is_b64_data c = (b64_value c \<noteq> None)"

definition standard_base64 :: "string \<Rightarrow> bool" where
  "standard_base64 s =
     (length s mod 4 = 0
      \<and> dropWhile is_b64_data s \<in> {[], ''='', ''==''})"

text \<open>
  What the facilitator reports for a job at the \<open>k\<close>-th request: the parsed response, or
  \<open>None\<close> when the status code is not a success or the body does not parse. And a job
  after a refresh that was given the response \<open>r\<close>.
\<close>

definition reported :: "externals \<Rightarrow> nat \<Rightarrow> string \<Rightarrow> FacilitatorJobResponse option" where
  "reported ext k job_uuid =
     (if is_success (status_code (respond ext k (job_request job_uuid)))
      then model_validate_json ext (response_text (respond ext k (job_request job_uuid)))
      else None)"

definition refreshed :: "ComputeHordeJob \<Rightarrow> FacilitatorJobResponse \<Rightarrow> ComputeHordeJob" where
  "refreshed job r =
     job\<lparr>status := r_status r, result := (if r_stdout r \<noteq> [] then Some (r_stdout r) else None)\<rparr>"

section \<open>Proofs\<close>

subsection \<open>The canonical payload of a request\<close>










subsection \<open>The digest\<close>

lemma be_bytes_digits:
  "be_bytes k n = map (\<lambda>i. char_of (n div 256 ^ (k - 1 - i) mod 256)) [0..<k]"
proof (induction k arbitrary: n)
  case 0
  show ?case by simp
next
  case (Suc k)
  have "n div 256 div 256 ^ (k - 1 - i) = n div 256 ^ (k - i)" if "i < k" for i
  proof -
    from that have "k - i = Suc (k - 1 - i)" by simp
    then show ?thesis by (simp add: div_mult2_eq)
  qed
  then have "map (\<lambda>i. char_of (n div 256 div 256 ^ (k - 1 - i) mod 256)) [0..<k]
             = map (\<lambda>i. char_of (n div 256 ^ (k - i) mod 256)) [0..<k]"
    by simp
  with Suc show ?case by simp
qed

lemma to_bytes_8:
  "0 \<le> n \<Longrightarrow> n < 2 ^ 64 \<Longrightarrow> to_bytes n 8 = Inr (big_endian_8 n)"
proof -
  assume "0 \<le> n" "n < 2 ^ 64"
  then have "\<not> (n < 0 \<or> 256 ^ 8 \<le> n)" by simp
  then have "to_bytes n 8 = Inr (be_bytes 8 (nat n))"
    unfolding to_bytes_def by (rule if_not_P)
  also have "be_bytes 8 (nat n) = big_endian_8 n"
    unfolding be_bytes_digits big_endian_8_def by simp
  finally show ?thesis .
qed

lemma encode_style_sorted:
  "encode \<lparr>item_separator = a, key_separator = b, sort_keys = True, escape = e\<rparr> j
   = encode \<lparr>item_separator = a, key_separator = b, sort_keys = False, escape = e\<rparr>
       (sort_dict_keys j)"
proof (induction "\<lparr>item_separator = a, key_separator = b, sort_keys = True, escape = e\<rparr>" j
       rule: encode.induct)
  case (6 xs)
  then show ?case by (simp cong: map_cong)
next
  case (7 kvs)
  have eq: "map (\<lambda>kv. encode_str \<lparr>item_separator = a, key_separator = b, sort_keys = True, escape = e\<rparr> (fst kv) @ b
              @ encode \<lparr>item_separator = a, key_separator = b, sort_keys = True, escape = e\<rparr> (snd kv))
          (sort_key fst kvs)
        = map (\<lambda>kv. encode_str \<lparr>item_separator = a, key_separator = b, sort_keys = False, escape = e\<rparr> (fst kv) @ b
              @ encode \<lparr>item_separator = a, key_separator = b, sort_keys = False, escape = e\<rparr>
                  (sort_dict_keys (snd kv)))
          (sort_key fst kvs)"
  proof (rule map_cong [OF refl])
    fix kv assume "kv \<in> set (sort_key fst kvs)"
    then have "kv \<in> set kvs" by simp
    with 7 show "encode_str \<lparr>item_separator = a, key_separator = b, sort_keys = True, escape = e\<rparr> (fst kv) @ b
              @ encode \<lparr>item_separator = a, key_separator = b, sort_keys = True, escape = e\<rparr> (snd kv)
        = encode_str \<lparr>item_separator = a, key_separator = b, sort_keys = False, escape = e\<rparr> (fst kv) @ b
              @ encode \<lparr>item_separator = a, key_separator = b, sort_keys = False, escape = e\<rparr>
                  (sort_dict_keys (snd kv))"
      by (simp add: encode_str_def)
  qed
  show ?case by (simp add: comp_def eq)
qed (simp_all add: encode_str_def)

lemma json_dumps_sorted: "json_dumps True j = json_dumps False (sort_dict_keys j)"
  by (simp add: json_dumps_def encode_style_sorted)

lemma keys_sorted_sort_dict_keys: "keys_sorted (sort_dict_keys j)"
proof (induction j rule: sort_dict_keys.induct)
  case (1 xs)
  then show ?case by (simp add: list_all_iff)
next
  case (2 kvs)
  then show ?case by (simp add: list_all_iff comp_def)
qed simp_all

lemma validate_signature_empty: "validate_signature [] = Inr []"
  by (simp add: validate_signature_def b64decode_def a2b_init_def)

lemma hash_message_signature_eq:
  assumes "0 \<le> timestamp_ns sg" and "timestamp_ns sg < 2 ^ 64"
  shows "hash_message_signature H p sg = Inr (H (big_endian_8 (timestamp_ns sg) @ payload_bytes p))"
  using to_bytes_8 [OF assms]
  by (simp add: hash_message_signature_def hasher_update_def)

text \<open>
  Claim C8. For a timestamp in the range of an unsigned 64-bit integer, the digest of a
  byte payload is the hash of the 8-byte big-endian encoding of the timestamp followed by
  the payload; for a payload that is not bytes it is the hash of the same 8 bytes followed
  by the JSON text of the payload with the keys of every dict sorted.
\<close>

theorem hash_message_signature_digest:
  assumes "0 \<le> timestamp_ns sg" and "timestamp_ns sg < 2 ^ 64"
  shows "hash_message_signature H (Bytes b) sg = Inr (H (big_endian_8 (timestamp_ns sg) @ b))
     \<and> hash_message_signature H (Json j) sg
         = Inr (H (big_endian_8 (timestamp_ns sg) @ json_dumps False (sort_dict_keys j)))
     \<and> keys_sorted (sort_dict_keys j)
     \<and> length (big_endian_8 (timestamp_ns sg)) = 8"
  using hash_message_signature_eq [OF assms]
  by (simp add: payload_bytes_def json_dumps_sorted keys_sorted_sort_dict_keys big_endian_8_def)

lemma big_endian_8_258:
  "big_endian_8 258 = [CHR 0x00, CHR 0x00, CHR 0x00, CHR 0x00, CHR 0x00, CHR 0x00, CHR 0x01, CHR 0x02]"
  by (simp add: big_endian_8_def upt_conv_Cons char_of_eq_iff)

lemma dumps_example:
  \<open>json_dumps False (sort_dict_keys (JDict [(''b'', JInt 1), (''a'', JList [JNull, JStr ''x'']), (''B'', JBool True)]))
    = ''{"B": true, "a": [null, "x"], "b": 1}''\<close>
  by code_simp

theorem hash_message_signature_digest_witness:
  \<open>hash_message_signature (\<lambda>x. x) (Bytes ''ab'')
      \<lparr>signature_type = ''bittensor'', signatory = ''5F'', timestamp_ns = 258, signature = []\<rparr>
     = Inr ([CHR 0x00, CHR 0x00, CHR 0x00, CHR 0x00, CHR 0x00, CHR 0x00, CHR 0x01, CHR 0x02] @ ''ab'')
   \<and> hash_message_signature (\<lambda>x. x)
        (Json (JDict [(''b'', JInt 1), (''a'', JList [JNull, JStr ''x'']), (''B'', JBool True)]))
        \<lparr>signature_type = ''bittensor'', signatory = ''5F'', timestamp_ns = 258, signature = []\<rparr>
     = Inr ([CHR 0x00, CHR 0x00, CHR 0x00, CHR 0x00, CHR 0x00, CHR 0x00, CHR 0x01, CHR 0x02]
            @ ''{"B": true, "a": [null, "x"], "b": 1}'')\<close>
proof -
  let ?sg = "\<lparr>signature_type = ''bittensor'', signatory = ''5F'', timestamp_ns = 258, signature = []\<rparr>"
  have r: "0 \<le> timestamp_ns ?sg" "timestamp_ns ?sg < 2 ^ 64" by simp_all
  have ts: "timestamp_ns ?sg = 258" by simp
  show ?thesis
    using hash_message_signature_digest [OF r, of "\<lambda>x. x" "''ab''"
        "JDict [(''b'', JInt 1), (''a'', JList [JNull, JStr ''x'']), (''B'', JBool True)]"]
    unfolding ts big_endian_8_258 dumps_example by blast
qed

subsection \<open>Signing\<close>

text \<open>
  Claim C9. With the clock reading in the range of an unsigned 64-bit integer, \<open>sign\<close>
  returns, when the backend signs, the signature whose type is the backend's tag, whose
  signatory is the backend's, whose timestamp is the clock reading and whose signature
  field is what the backend's signing operation gives for the digest of that timestamp
  and the payload's bytes; when the backend raises, \<open>sign\<close> raises the same and returns
  nothing. A signature that is returned never holds the provisional empty field in place
  of the backend's output.
\<close>

theorem sign_result:
  assumes "0 \<le> now_ns" and "now_ns < 2 ^ 64"
  shows "sign H sr now_ns p =
     (case priv_sign sr (H (big_endian_8 now_ns @ payload_bytes p)) of
        Inl e \<Rightarrow> Inl e
      | Inr b \<Rightarrow> Inr \<lparr>signature_type = scheme_type sr, signatory = get_signatory sr,
                      timestamp_ns = now_ns, signature = b\<rparr>)
   \<and> (\<forall>sg. sign H sr now_ns p = Inr sg \<longrightarrow>
         priv_sign sr (H (big_endian_8 now_ns @ payload_bytes p)) = Inr (signature sg))"
proof -
  let ?sg0 = "\<lparr>signature_type = scheme_type sr, signatory = get_signatory sr,
               timestamp_ns = now_ns, signature = []\<rparr>"
  have n: "new_Signature (scheme_type sr) (get_signatory sr) now_ns [] = Inr ?sg0"
    by (simp add: new_Signature_def validate_signature_empty)
  have h: "hash_message_signature H p ?sg0 = Inr (H (big_endian_8 now_ns @ payload_bytes p))"
    using hash_message_signature_eq [of ?sg0 H p] assms by simp
  have s: "sign H sr now_ns p =
     (case priv_sign sr (H (big_endian_8 now_ns @ payload_bytes p)) of
        Inl e \<Rightarrow> Inl e
      | Inr b \<Rightarrow> Inr \<lparr>signature_type = scheme_type sr, signatory = get_signatory sr,
                      timestamp_ns = now_ns, signature = b\<rparr>)"
    by (simp add: sign_def n h split: sum.splits)
  show ?thesis
    unfolding s by (auto split: sum.splits)
qed

theorem sign_result_witness:
  "sign (\<lambda>x. x) \<lparr>scheme_type = ''bittensor'', get_signatory = ''5F'', priv_sign = (\<lambda>d. Inr (rev d))\<rparr>
      258 (Bytes ''ab'')
    = Inr \<lparr>signature_type = ''bittensor'', signatory = ''5F'', timestamp_ns = 258,
           signature = ''ba'' @ [CHR 0x02, CHR 0x01, CHR 0x00, CHR 0x00, CHR 0x00, CHR 0x00, CHR 0x00, CHR 0x00]\<rparr>"
proof -
  have r: "(0::int) \<le> 258" "(258::int) < 2 ^ 64" by simp_all
  note t = sign_result [OF r, of "\<lambda>x. x"
      "\<lparr>scheme_type = ''bittensor'', get_signatory = ''5F'', priv_sign = (\<lambda>d. Inr (rev d))\<rparr>" "Bytes ''ab''",
      THEN conjunct1]
  show ?thesis
    unfolding t by (simp add: big_endian_8_258 payload_bytes_def)
qed

subsection \<open>The GPU flag of a created job\<close>





subsection \<open>The bytes signed for a job\<close>

lemma dump1:
  \<open>model_dump_json \<lparr>executor_class = ''e'', docker_image = ''alpine'', raw_script = [], args = ''echo hi'',
        env = [(''A'', ''1''), (''B'', ''2'')], use_gpu = True, volumes = [], uploads = []\<rparr>
   = ''{"executor_class":"e","docker_image":"alpine","raw_script":"","args":"echo hi","env":{"A":"1","B":"2"},"use_gpu":true,"volumes":[],"uploads":[]}''\<close>
  by code_simp

lemma dump2:
  \<open>model_dump_json \<lparr>executor_class = ''e'', docker_image = ''alpine'', raw_script = [], args = ''echo hi'',
        env = [(''B'', ''2''), (''A'', ''1'')], use_gpu = True, volumes = [], uploads = []\<rparr>
   = ''{"executor_class":"e","docker_image":"alpine","raw_script":"","args":"echo hi","env":{"B":"2","A":"1"},"use_gpu":true,"volumes":[],"uploads":[]}''\<close>
  by code_simp

lemma bytes_differ:
  "signed_bytes \<lparr>executor_class = ''e'', docker_image = ''alpine'', raw_script = [], args = ''echo hi'',
        env = [(''A'', ''1''), (''B'', ''2'')], use_gpu = True, volumes = [], uploads = []\<rparr>
   \<noteq> signed_bytes \<lparr>executor_class = ''e'', docker_image = ''alpine'', raw_script = [], args = ''echo hi'',
        env = [(''B'', ''2''), (''A'', ''1'')], use_gpu = True, volumes = [], uploads = []\<rparr>"
  by code_simp

text \<open>
  Claim C1, as stated, fails: two \<open>SignedFields\<close> values that are equal, with the items of
  \<open>env\<close> supplied in different orders, are signed as different bytes. The payload handed
  to the digest function is the text of \<open>model_dump_json()\<close>, a string, and sorting keys
  does nothing to a string.
\<close>

theorem signed_bytes_env_order_counterexample:
  \<open>SignedFields_equal
     \<lparr>executor_class = ''e'', docker_image = ''alpine'', raw_script = [], args = ''echo hi'',
        env = [(''A'', ''1''), (''B'', ''2'')], use_gpu = True, volumes = [], uploads = []\<rparr>
     \<lparr>executor_class = ''e'', docker_image = ''alpine'', raw_script = [], args = ''echo hi'',
        env = [(''B'', ''2''), (''A'', ''1'')], use_gpu = True, volumes = [], uploads = []\<rparr>
   \<and> model_dump_json
       \<lparr>executor_class = ''e'', docker_image = ''alpine'', raw_script = [], args = ''echo hi'',
        env = [(''A'', ''1''), (''B'', ''2'')], use_gpu = True, volumes = [], uploads = []\<rparr>
     = ''{"executor_class":"e","docker_image":"alpine","raw_script":"","args":"echo hi","env":{"A":"1","B":"2"},"use_gpu":true,"volumes":[],"uploads":[]}''
   \<and> model_dump_json
       \<lparr>executor_class = ''e'', docker_image = ''alpine'', raw_script = [], args = ''echo hi'',
        env = [(''B'', ''2''), (''A'', ''1'')], use_gpu = True, volumes = [], uploads = []\<rparr>
     = ''{"executor_class":"e","docker_image":"alpine","raw_script":"","args":"echo hi","env":{"B":"2","A":"1"},"use_gpu":true,"volumes":[],"uploads":[]}''
   \<and> signed_bytes
       \<lparr>executor_class = ''e'', docker_image = ''alpine'', raw_script = [], args = ''echo hi'',
        env = [(''A'', ''1''), (''B'', ''2'')], use_gpu = True, volumes = [], uploads = []\<rparr>
     \<noteq> signed_bytes
       \<lparr>executor_class = ''e'', docker_image = ''alpine'', raw_script = [], args = ''echo hi'',
        env = [(''B'', ''2''), (''A'', ''1'')], use_gpu = True, volumes = [], uploads = []\<rparr>\<close>
proof -
  have "map_of [(''A'', ''1''), (''B'', ''2'')] = map_of [(''B'', ''2''), (''A'', ''1'')]"
    by (auto simp: fun_eq_iff)
  then have "SignedFields_equal
     \<lparr>executor_class = ''e'', docker_image = ''alpine'', raw_script = [], args = ''echo hi'',
        env = [(''A'', ''1''), (''B'', ''2'')], use_gpu = True, volumes = [], uploads = []\<rparr>
     \<lparr>executor_class = ''e'', docker_image = ''alpine'', raw_script = [], args = ''echo hi'',
        env = [(''B'', ''2''), (''A'', ''1'')], use_gpu = True, volumes = [], uploads = []\<rparr>"
    unfolding SignedFields_equal_def by simp
  with dump1 dump2 bytes_differ show ?thesis
    by (intro conjI)
qed

text \<open>
  The serialisers can be read back. An escape sequence tells its character, even when
  other text follows it, and has no quote in it, so that the text of a string ends at its
  closing quote; and two values that are equal up to the order of the items of their dicts
  and have the same text, in a style that sorts no keys, are the same value.
\<close>

lemma hex_digit_inj:
  assumes "a < 16" and "b < 16" and "hex_digit a = hex_digit b"
  shows "a = b"
proof -
  from assms(3) have "(of_char (hex_digit a) :: nat) = of_char (hex_digit b)" by simp
  with assms(1,2) show ?thesis
    by (auto simp: hex_digit_def split: if_splits)
qed

lemma u_escape_inj:
  assumes "u_escape a = u_escape b"
  shows "a = b"
proof -
  have lt: "code_point c div 16 < 16" "code_point c mod 16 < 16" for c
  proof -
    have "(of_char c :: nat) < 256" by simp
    then have "(of_char c :: nat) div 16 < 16" by arith
    then show "code_point c div 16 < 16" by (simp only: code_point_def)
    show "code_point c mod 16 < 16" by simp
  qed
  from assms have "hex_digit (code_point a div 16) = hex_digit (code_point b div 16)"
    and "hex_digit (code_point a mod 16) = hex_digit (code_point b mod 16)"
    by (simp_all add: u_escape_def)
  then have "code_point a div 16 = code_point b div 16" "code_point a mod 16 = code_point b mod 16"
    using hex_digit_inj lt by blast+
  then have "code_point a = code_point b"
    by (metis div_mult_mod_eq)
  then show ?thesis by (simp add: code_point_def)
qed

lemma short_escape_shape:
  "short_escape c = Some e \<Longrightarrow> \<exists>l. e = [CHR 0x5C, l] \<and> l \<noteq> CHR ''u''"
  by (auto simp: short_escape_def split: if_splits)

lemma short_escape_inj:
  "short_escape a = Some e \<Longrightarrow> short_escape b = Some e' \<Longrightarrow> e ! 1 = e' ! 1 \<Longrightarrow> a = b"
  by (auto simp: short_escape_def split: if_splits)

lemma short_escape_backslash: "short_escape CHR 0x5C \<noteq> None" "short_escape CHR 0x22 \<noteq> None"
  by (simp_all add: short_escape_def)

lemma escape_kinds:
  assumes e: "\<And>c. e c = (case short_escape c of Some x \<Rightarrow> x | None \<Rightarrow> if P c then [c] else u_escape c)"
  shows "(\<exists>l. e c = [CHR 0x5C, l] \<and> l \<noteq> CHR ''u'' \<and> short_escape c = Some [CHR 0x5C, l])
         \<or> (e c = [c] \<and> c \<noteq> CHR 0x5C \<and> c \<noteq> CHR 0x22)
         \<or> e c = u_escape c"
proof (cases "short_escape c")
  case None
  show ?thesis
  proof (cases "P c")
    case True
    with None e [of c] have "e c = [c]" by simp
    moreover from None short_escape_backslash have "c \<noteq> CHR 0x5C" "c \<noteq> CHR 0x22" by auto
    ultimately show ?thesis by blast
  next
    case False
    with None e [of c] have "e c = u_escape c" by simp
    then show ?thesis by blast
  qed
next
  case (Some x)
  with e [of c] have "e c = x" by simp
  with short_escape_shape [OF Some] Some show ?thesis by auto
qed

lemma u_escape_append: "u_escape a @ x = u_escape b @ y \<Longrightarrow> a = b"
proof -
  assume "u_escape a @ x = u_escape b @ y"
  then have "u_escape a = u_escape b" by (simp add: u_escape_def)
  then show ?thesis by (rule u_escape_inj)
qed

lemma escape_code:
  assumes e: "\<And>c. e c = (case short_escape c of Some x \<Rightarrow> x | None \<Rightarrow> if P c then [c] else u_escape c)"
    and eq: "e a @ x = e b @ y"
  shows "a = b"
proof -
  consider (short) l where "e a = [CHR 0x5C, l]" "l \<noteq> CHR ''u''" "short_escape a = Some [CHR 0x5C, l]"
    | (plain) "e a = [a]" "a \<noteq> CHR 0x5C" "a \<noteq> CHR 0x22"
    | (uni) "e a = u_escape a"
    using escape_kinds [OF e, of a] by blast
  then show ?thesis
  proof cases
    case short
    note a = this
    consider (short') l' where "e b = [CHR 0x5C, l']" "l' \<noteq> CHR ''u''" "short_escape b = Some [CHR 0x5C, l']"
      | (plain') "e b = [b]" "b \<noteq> CHR 0x5C" "b \<noteq> CHR 0x22"
      | (uni') "e b = u_escape b"
      using escape_kinds [OF e, of b] by blast
    then show ?thesis
    proof cases
      case short'
      with a eq have "l = l'" by simp
      with a short' show ?thesis
        using short_escape_inj [of a "[CHR 0x5C, l]" b "[CHR 0x5C, l']"] by simp
    next
      case plain'
      with a eq show ?thesis by simp
    next
      case uni'
      with a eq show ?thesis by (simp add: u_escape_def)
    qed
  next
    case plain
    note a = this
    consider (short') l' where "e b = [CHR 0x5C, l']" "l' \<noteq> CHR ''u''" "short_escape b = Some [CHR 0x5C, l']"
      | (plain') "e b = [b]" "b \<noteq> CHR 0x5C" "b \<noteq> CHR 0x22"
      | (uni') "e b = u_escape b"
      using escape_kinds [OF e, of b] by blast
    then show ?thesis
    proof cases
      case short'
      with a eq show ?thesis by simp
    next
      case plain'
      with a eq show ?thesis by simp
    next
      case uni'
      with a eq show ?thesis by (simp add: u_escape_def)
    qed
  next
    case uni
    note a = this
    consider (short') l' where "e b = [CHR 0x5C, l']" "l' \<noteq> CHR ''u''" "short_escape b = Some [CHR 0x5C, l']"
      | (plain') "e b = [b]" "b \<noteq> CHR 0x5C" "b \<noteq> CHR 0x22"
      | (uni') "e b = u_escape b"
      using escape_kinds [OF e, of b] by blast
    then show ?thesis
    proof cases
      case short'
      with a eq show ?thesis by (simp add: u_escape_def)
    next
      case plain'
      with a eq show ?thesis by (simp add: u_escape_def)
    next
      case uni'
      with a eq show ?thesis by (simp add: u_escape_append)
    qed
  qed
qed

lemma escape_not_quote:
  assumes e: "\<And>c. e c = (case short_escape c of Some x \<Rightarrow> x | None \<Rightarrow> if P c then [c] else u_escape c)"
  shows "e c \<noteq> [] \<and> hd (e c) \<noteq> CHR 0x22"
  using escape_kinds [OF e, of c] by (auto simp: u_escape_def)

lemma concat_escape_delimited:
  assumes e: "\<And>c. e c = (case short_escape c of Some x \<Rightarrow> x | None \<Rightarrow> if P c then [c] else u_escape c)"
  shows "concat (map e s) @ CHR 0x22 # r = concat (map e s') @ CHR 0x22 # r' \<Longrightarrow> s = s' \<and> r = r'"
proof (induction s arbitrary: s')
  case Nil
  show ?case
  proof (cases s')
    case Nil
    with Nil.prems show ?thesis by simp
  next
    case (Cons c t)
    with Nil.prems escape_not_quote [OF e, of c] show ?thesis
      by (cases "e c") auto
  qed
next
  case (Cons c t)
  show ?case
  proof (cases s')
    case Nil
    with Cons.prems escape_not_quote [OF e, of c] show ?thesis
      by (cases "e c") auto
  next
    case (Cons c' t')
    with Cons.prems have eq: "e c @ (concat (map e t) @ CHR 0x22 # r)
                             = e c' @ (concat (map e t') @ CHR 0x22 # r')"
      by simp
    then have c: "c = c'" by (rule escape_code [OF e])
    with eq have "concat (map e t) @ CHR 0x22 # r = concat (map e t') @ CHR 0x22 # r'"
      by simp
    from Cons.IH [OF this] c Cons show ?thesis by simp
  qed
qed

lemma python_escape_form:
  "python_escape c = (case short_escape c of Some x \<Rightarrow> x
     | None \<Rightarrow> if 32 \<le> code_point c \<and> code_point c \<le> 126 then [c] else u_escape c)"
  by (simp add: python_escape_def)

lemma pydantic_escape_form:
  "pydantic_escape c = (case short_escape c of Some x \<Rightarrow> x
     | None \<Rightarrow> if 32 \<le> code_point c then [c] else u_escape c)"
  by (simp add: pydantic_escape_def)

lemma join_Cons: "join sep (x # xs) = x @ (if xs = [] then [] else sep @ join sep xs)"
  by (cases xs) simp_all

lemma length_join:
  "length (join sep ss) = sum_list (map length ss) + length sep * (length ss - 1)"
  by (induction sep ss rule: join.induct) simp_all

lemma join_inj_list:
  assumes "list_all2 (\<lambda>x y. length (f x) = length (f y) \<and> (f x = f y \<longrightarrow> x = y)) xs ys"
    and "join sep (map f xs) @ t = join sep (map f ys) @ t"
  shows "xs = ys"
  using assms
proof (induction xs ys rule: list_all2_induct)
  case Nil
  show ?case by simp
next
  case (Cons x xs y ys)
  from Cons.hyps(2) have len: "length xs = length ys"
    by (rule list_all2_lengthD)
  let ?A = "(if xs = [] then [] else sep @ join sep (map f xs)) @ t"
  let ?B = "(if ys = [] then [] else sep @ join sep (map f ys)) @ t"
  from Cons.prems have "f x @ ?A = f y @ ?B"
    by (simp add: join_Cons)
  with Cons.hyps(1) have fx: "f x = f y" and rest: "?A = ?B"
    by simp_all
  with Cons.hyps(1) have xy: "x = y" by simp
  show ?case
  proof (cases "xs = []")
    case True
    with len xy show ?thesis by simp
  next
    case False
    with len have "ys \<noteq> []" by auto
    with False rest have "join sep (map f xs) @ t = join sep (map f ys) @ t"
      by simp
    with Cons.IH xy show ?thesis by simp
  qed
qed

lemma join_inj_dict:
  fixes q :: "string \<Rightarrow> string" and f :: "json \<Rightarrow> string"
  assumes q: "\<And>k r k' r'. q k @ r = q k' @ r' \<Longrightarrow> k = k' \<and> r = r'"
  shows "distinct (map fst xs) \<Longrightarrow> distinct (map fst ys) \<Longrightarrow> set (map fst xs) = set (map fst ys) \<Longrightarrow>
    (\<And>kv kv'. kv \<in> set xs \<Longrightarrow> kv' \<in> set ys \<Longrightarrow> fst kv = fst kv' \<Longrightarrow>
        length (f (snd kv)) = length (f (snd kv')) \<and> (f (snd kv) = f (snd kv') \<longrightarrow> snd kv = snd kv')) \<Longrightarrow>
    join sep (map (\<lambda>kv. q (fst kv) @ ks @ f (snd kv)) xs) @ t
      = join sep (map (\<lambda>kv. q (fst kv) @ ks @ f (snd kv)) ys) @ t \<Longrightarrow>
    xs = ys"
proof (induction xs arbitrary: ys)
  case Nil
  then show ?case by simp
next
  case (Cons x xs)
  from Cons.prems(3) obtain y ys' where ys: "ys = y # ys'"
    by (cases ys) auto
  let ?item = "\<lambda>kv. q (fst kv) @ ks @ f (snd kv)"
  let ?A = "(if xs = [] then [] else sep @ join sep (map ?item xs)) @ t"
  let ?B = "(if ys' = [] then [] else sep @ join sep (map ?item ys')) @ t"
  from Cons.prems(5) have "q (fst x) @ (ks @ f (snd x) @ ?A) = q (fst y) @ (ks @ f (snd y) @ ?B)"
    unfolding ys by (simp add: join_Cons)
  from q [OF this] have k: "fst x = fst y" and r: "f (snd x) @ ?A = f (snd y) @ ?B"
    by simp_all
  have "length (f (snd x)) = length (f (snd y)) \<and> (f (snd x) = f (snd y) \<longrightarrow> snd x = snd y)"
    using Cons.prems(4) [of x y] k ys by simp
  with r have v: "snd x = snd y" and rest: "?A = ?B"
    by simp_all
  from k v have xy: "x = y" by (simp add: prod_eq_iff)
  have keys: "set (map fst xs) = set (map fst ys')"
  proof -
    from Cons.prems(1) have "fst x \<notin> set (map fst xs)" by simp
    moreover from Cons.prems(2) k ys have "fst x \<notin> set (map fst ys')" by simp
    moreover from Cons.prems(3) k ys
    have "insert (fst x) (set (map fst xs)) = insert (fst x) (set (map fst ys'))" by simp
    ultimately show ?thesis by (metis insert_ident)
  qed
  then have emp: "xs = [] \<longleftrightarrow> ys' = []"
    by (metis map_is_Nil_conv set_empty)
  have "xs = ys'"
  proof (cases "xs = []")
    case True
    with emp show ?thesis by simp
  next
    case False
    with emp rest have "join sep (map ?item xs) @ t = join sep (map ?item ys') @ t"
      by simp
    moreover from Cons.prems(1) have "distinct (map fst xs)" by simp
    moreover from Cons.prems(2) ys have "distinct (map fst ys')" by simp
    moreover have "length (f (snd kv)) = length (f (snd kv')) \<and> (f (snd kv) = f (snd kv') \<longrightarrow> snd kv = snd kv')"
      if "kv \<in> set xs" "kv' \<in> set ys'" "fst kv = fst kv'" for kv kv'
      using Cons.prems(4) [of kv kv'] that ys by simp
    ultimately show ?thesis
      using Cons.IH [of ys'] keys by blast
  qed
  with xy ys show ?case by simp
qed

lemma encode_str_delimited:
  assumes e: "\<And>c. escape st c = (case short_escape c of Some x \<Rightarrow> x | None \<Rightarrow> if P c then [c] else u_escape c)"
    and eq: "encode_str st s @ r = encode_str st s' @ r'"
  shows "s = s' \<and> r = r'"
proof -
  from eq have "concat (map (escape st) s) @ CHR 0x22 # r = concat (map (escape st) s') @ CHR 0x22 # r'"
    by (simp add: encode_str_def)
  then show ?thesis by (rule concat_escape_delimited [OF e])
qed

lemma sum_list_same_keys:
  fixes g :: "'k \<times> 'v \<Rightarrow> nat"
  assumes "distinct (map fst xs)" "distinct (map fst ys)" "set (map fst xs) = set (map fst ys)"
    and same: "\<And>kv kv'. kv \<in> set xs \<Longrightarrow> kv' \<in> set ys \<Longrightarrow> fst kv = fst kv' \<Longrightarrow> g kv = g kv'"
  shows "sum_list (map g xs) = sum_list (map g ys)"
proof -
  define h where "h k = g (k, the (map_of xs k))" for k
  have hx: "g kv = h (fst kv)" if "kv \<in> set xs" for kv
  proof -
    from that have "map_of xs (fst kv) = Some (snd kv)"
      using map_of_is_SomeI [OF assms(1), of "fst kv" "snd kv"] by simp
    then show ?thesis by (simp add: h_def)
  qed
  have hy: "g kv' = h (fst kv')" if "kv' \<in> set ys" for kv'
  proof -
    from that assms(3) have "fst kv' \<in> set (map fst xs)" by force
    then obtain kv where kv: "kv \<in> set xs" "fst kv = fst kv'" by auto
    from same [OF kv(1) that kv(2)] hx [OF kv(1)] kv(2) show ?thesis by simp
  qed
  have "sum_list (map g xs) = sum_list (map h (map fst xs))"
    using hx by (simp add: comp_def cong: map_cong)
  also have "\<dots> = sum h (set (map fst xs))"
    using assms(1) by (rule sum_list_distinct_conv_sum_set)
  also have "\<dots> = sum h (set (map fst ys))"
    using assms(3) by simp
  also have "\<dots> = sum_list (map h (map fst ys))"
    using assms(2) by (rule sum_list_distinct_conv_sum_set [symmetric])
  also have "\<dots> = sum_list (map g ys)"
    using hy by (simp add: comp_def cong: map_cong)
  finally show ?thesis .
qed

lemma length_same_keys:
  assumes "distinct (map fst xs)" "distinct (map fst ys)" "set (map fst xs) = set (map fst ys)"
  shows "length xs = length ys"
proof -
  have "length xs = card (set (map fst xs))"
    using assms(1) by (metis distinct_card length_map)
  also have "\<dots> = card (set (map fst ys))" using assms(3) by simp
  also have "\<dots> = length ys"
    using assms(2) by (metis distinct_card length_map)
  finally show ?thesis .
qed

lemma json_equal_length:
  assumes sk: "\<not> sort_keys st"
  shows "json_equal x y \<Longrightarrow> length (encode st x) = length (encode st y)"
proof (induction x y rule: json_equal.induct)
  case (1 xs ys)
  from "1.prems" have "list_all2 json_equal xs ys" by simp
  then have "list_all2 (\<lambda>x y. length (encode st x) = length (encode st y)) xs ys"
    by (rule list.rel_mono_strong) (rule "1.IH")
  then have "map (\<lambda>x. length (encode st x)) xs = map (\<lambda>y. length (encode st y)) ys"
    by (induction rule: list_all2_induct) simp_all
  moreover from \<open>list_all2 json_equal xs ys\<close> have "length xs = length ys"
    by (rule list_all2_lengthD)
  ultimately show ?case
    by (simp add: length_join comp_def)
next
  case (2 xs ys)
  let ?g = "\<lambda>kv. length (encode_str st (fst kv) @ key_separator st @ encode st (snd kv))"
  from "2.prems" have d: "distinct (map fst xs)" "distinct (map fst ys)"
    "set (map fst xs) = set (map fst ys)"
    and rel: "\<And>kv kv'. kv \<in> set xs \<Longrightarrow> kv' \<in> set ys \<Longrightarrow> fst kv = fst kv' \<Longrightarrow> json_equal (snd kv) (snd kv')"
    by auto
  have "?g kv = ?g kv'" if "kv \<in> set xs" "kv' \<in> set ys" "fst kv = fst kv'" for kv kv'
    using "2.IH" [OF that rel [OF that]] that(3) by simp
  then have "sum_list (map ?g xs) = sum_list (map ?g ys)"
    by (rule sum_list_same_keys [OF d])
  moreover have "length xs = length ys"
    by (rule length_same_keys [OF d])
  ultimately show ?case
    using sk by (simp add: length_join comp_def)
qed simp_all

lemma json_equal_encode_inj:
  assumes sk: "\<not> sort_keys st"
    and e: "\<And>c. escape st c = (case short_escape c of Some x \<Rightarrow> x | None \<Rightarrow> if P c then [c] else u_escape c)"
  shows "json_equal x y \<Longrightarrow> encode st x = encode st y \<Longrightarrow> x = y"
proof (induction x y rule: json_equal.induct)
  case (1 xs ys)
  from "1.prems"(1) have all: "list_all2 json_equal xs ys" by simp
  then have "list_all2 (\<lambda>x y. length (encode st x) = length (encode st y)
                  \<and> (encode st x = encode st y \<longrightarrow> x = y)) xs ys"
  proof (rule list.rel_mono_strong)
    fix z yb assume "z \<in> set xs" "yb \<in> set ys" "json_equal z yb"
    with "1.IH" [of z yb] json_equal_length [OF sk, of z yb]
    show "length (encode st z) = length (encode st yb) \<and> (encode st z = encode st yb \<longrightarrow> z = yb)"
      by blast
  qed
  moreover from "1.prems"(2)
  have "join (item_separator st) (map (encode st) xs) @ '']''
        = join (item_separator st) (map (encode st) ys) @ '']''"
    by simp
  ultimately have "xs = ys" by (rule join_inj_list)
  then show ?case by simp
next
  case (2 xs ys)
  from "2.prems"(1) have d: "distinct (map fst xs)" "distinct (map fst ys)"
    "set (map fst xs) = set (map fst ys)"
    and rel: "\<And>kv kv'. kv \<in> set xs \<Longrightarrow> kv' \<in> set ys \<Longrightarrow> fst kv = fst kv' \<Longrightarrow> json_equal (snd kv) (snd kv')"
    by auto
  have q: "k = k' \<and> r = r'" if "encode_str st k @ r = encode_str st k' @ r'" for k r k' r'
    using that by (rule encode_str_delimited [OF e])
  have vals: "length (encode st (snd kv)) = length (encode st (snd kv'))
              \<and> (encode st (snd kv) = encode st (snd kv') \<longrightarrow> snd kv = snd kv')"
    if "kv \<in> set xs" "kv' \<in> set ys" "fst kv = fst kv'" for kv kv'
    using "2.IH" [OF that rel [OF that]] json_equal_length [OF sk rel [OF that]] by blast
  from "2.prems"(2) sk
  have "join (item_separator st)
          (map (\<lambda>kv. encode_str st (fst kv) @ key_separator st @ encode st (snd kv)) xs) @ ''}''
        = join (item_separator st)
          (map (\<lambda>kv. encode_str st (fst kv) @ key_separator st @ encode st (snd kv)) ys) @ ''}''"
    by simp
  with q d vals have "xs = ys"
    by (rule join_inj_dict)
  then show ?case by simp
qed simp_all

lemma keys_of_map_of:
  assumes "map_of xs = map_of ys"
  shows "set (map fst xs) = set (map fst ys)"
proof -
  have "fst ` set xs = dom (map_of xs)" by (simp add: dom_map_of_conv_image_fst)
  also have "\<dots> = dom (map_of ys)" using assms by simp
  also have "\<dots> = fst ` set ys" by (simp add: dom_map_of_conv_image_fst)
  finally show ?thesis by simp
qed

lemma vals_of_map_of:
  assumes "distinct (map fst xs)" "distinct (map fst ys)" "map_of xs = map_of ys"
    and "kv \<in> set xs" "kv' \<in> set ys" "fst kv = fst kv'"
  shows "snd kv = snd kv'"
proof -
  from assms(4) have "map_of xs (fst kv) = Some (snd kv)"
    using map_of_is_SomeI [OF assms(1), of "fst kv" "snd kv"] by simp
  moreover from assms(5) have "map_of ys (fst kv') = Some (snd kv')"
    using map_of_is_SomeI [OF assms(2), of "fst kv'" "snd kv'"] by simp
  ultimately show ?thesis using assms(3,6) by simp
qed

lemma env_json_equal:
  assumes "distinct (map fst xs)" "distinct (map fst ys)" "map_of xs = map_of ys"
  shows "json_equal (JDict (map (\<lambda>kv. (fst kv, JStr (snd kv))) xs))
                    (JDict (map (\<lambda>kv. (fst kv, JStr (snd kv))) ys))"
proof -
  let ?j = "\<lambda>kv :: string \<times> string. (fst kv, JStr (snd kv))"
  have m: "map fst (map ?j zs) = map fst zs" for zs
    by (simp add: comp_def)
  have keys: "set (map fst xs) = set (map fst ys)"
    using assms(3) by (rule keys_of_map_of)
  have v: "\<forall>a\<in>set (map ?j xs). \<forall>b\<in>set (map ?j ys). fst a = fst b \<longrightarrow> json_equal (snd a) (snd b)"
  proof (intro ballI impI)
    fix a b assume a: "a \<in> set (map ?j xs)" and b: "b \<in> set (map ?j ys)" and k: "fst a = fst b"
    from a obtain kv where kv: "kv \<in> set xs" "a = ?j kv" by (auto simp: image_iff)
    from b obtain kv' where kv': "kv' \<in> set ys" "b = ?j kv'" by (auto simp: image_iff)
    from k kv kv' have "fst kv = fst kv'" by simp
    from vals_of_map_of [OF assms kv(1) kv'(1) this] kv kv'
    show "json_equal (snd a) (snd b)" by simp
  qed
  have d: "distinct (map fst (map ?j xs))" "distinct (map fst (map ?j ys))"
    "set (map fst (map ?j xs)) = set (map fst (map ?j ys))"
    unfolding m using assms(1,2) keys by blast+
  show ?thesis
    unfolding json_equal.simps(2) using d v by (intro conjI)
qed

lemma json_equal_same_keys:
  assumes k: "map fst xs = map fst ys" and d: "distinct (map fst xs)"
    and v: "list_all2 json_equal (map snd xs) (map snd ys)"
  shows "json_equal (JDict xs) (JDict ys)"
proof -
  from k have len: "length xs = length ys" by (rule map_eq_imp_length_eq)
  have "json_equal (snd a) (snd b)" if "a \<in> set xs" "b \<in> set ys" "fst a = fst b" for a b
  proof -
    from that(1) obtain i where i: "i < length xs" "a = xs ! i" by (auto simp: in_set_conv_nth)
    from that(2) obtain j where j: "j < length ys" "b = ys ! j" by (auto simp: in_set_conv_nth)
    have "map fst xs ! j = fst (ys ! j)"
      unfolding k using j(1) by simp
    with i j that(3) have "map fst xs ! i = map fst xs ! j" by simp
    moreover from d have "(map fst xs ! i = map fst xs ! j) = (i = j)"
      by (rule nth_eq_iff_index_eq) (use i j len in simp_all)
    ultimately have "i = j" by blast
    with v i j len show ?thesis by (simp add: list_all2_conv_all_nth)
  qed
  with k d show ?thesis
    unfolding json_equal.simps(2) by simp
qed

lemma SignedFields_json_equal:
  assumes "SignedFields_equal f g"
  shows "json_equal (SignedFields_json f) (SignedFields_json g)"
proof -
  from assms have e: "json_equal (JDict (map (\<lambda>kv. (fst kv, JStr (snd kv))) (env f)))
                    (JDict (map (\<lambda>kv. (fst kv, JStr (snd kv))) (env g)))"
    unfolding SignedFields_equal_def by (intro env_json_equal) blast+
  from assms have s: "executor_class f = executor_class g" "docker_image f = docker_image g"
    "raw_script f = raw_script g" "args f = args g" "use_gpu f = use_gpu g"
    and l: "list_all2 json_equal (volumes f) (volumes g)" "list_all2 json_equal (uploads f) (uploads g)"
    unfolding SignedFields_equal_def by blast+
  show ?thesis
    unfolding SignedFields_json_def
  proof (rule json_equal_same_keys)
    show "map fst [(''executor_class'', JStr (executor_class f)), (''docker_image'', JStr (docker_image f)),
            (''raw_script'', JStr (raw_script f)), (''args'', JStr (args f)),
            (''env'', JDict (map (\<lambda>kv. (fst kv, JStr (snd kv))) (env f))),
            (''use_gpu'', JBool (use_gpu f)), (''volumes'', JList (volumes f)),
            (''uploads'', JList (uploads f))]
        = map fst [(''executor_class'', JStr (executor_class g)), (''docker_image'', JStr (docker_image g)),
            (''raw_script'', JStr (raw_script g)), (''args'', JStr (args g)),
            (''env'', JDict (map (\<lambda>kv. (fst kv, JStr (snd kv))) (env g))),
            (''use_gpu'', JBool (use_gpu g)), (''volumes'', JList (volumes g)),
            (''uploads'', JList (uploads g))]"
      by simp
    show "distinct (map fst [(''executor_class'', JStr (executor_class f)), (''docker_image'', JStr (docker_image f)),
            (''raw_script'', JStr (raw_script f)), (''args'', JStr (args f)),
            (''env'', JDict (map (\<lambda>kv. (fst kv, JStr (snd kv))) (env f))),
            (''use_gpu'', JBool (use_gpu f)), (''volumes'', JList (volumes f)),
            (''uploads'', JList (uploads f))])"
      by simp
    show "list_all2 json_equal
           (map snd [(''executor_class'', JStr (executor_class f)), (''docker_image'', JStr (docker_image f)),
            (''raw_script'', JStr (raw_script f)), (''args'', JStr (args f)),
            (''env'', JDict (map (\<lambda>kv. (fst kv, JStr (snd kv))) (env f))),
            (''use_gpu'', JBool (use_gpu f)), (''volumes'', JList (volumes f)),
            (''uploads'', JList (uploads f))])
           (map snd [(''executor_class'', JStr (executor_class g)), (''docker_image'', JStr (docker_image g)),
            (''raw_script'', JStr (raw_script g)), (''args'', JStr (args g)),
            (''env'', JDict (map (\<lambda>kv. (fst kv, JStr (snd kv))) (env g))),
            (''use_gpu'', JBool (use_gpu g)), (''volumes'', JList (volumes g)),
            (''uploads'', JList (uploads g))])"
      using e s l by (simp del: json_equal.simps(2))
  qed
qed

lemma SignedFields_json_inj:
  assumes "SignedFields_json f = SignedFields_json g"
  shows "f = g"
proof -
  from assms have fields: "executor_class f = executor_class g" "docker_image f = docker_image g"
    "raw_script f = raw_script g" "args f = args g" "use_gpu f = use_gpu g"
    "volumes f = volumes g" "uploads f = uploads g"
    and e: "map (\<lambda>kv. (fst kv, JStr (snd kv))) (env f) = map (\<lambda>kv. (fst kv, JStr (snd kv))) (env g)"
    by (simp_all add: SignedFields_json_def)
  have "inj (\<lambda>kv :: string \<times> string. (fst kv, JStr (snd kv)))"
    by (rule injI) (simp add: prod_eq_iff)
  with e have "env f = env g"
    by (simp add: inj_map_eq_map)
  with fields show ?thesis by simp
qed

lemma signed_bytes_inj:
  assumes "SignedFields_equal f g" and "signed_bytes f = signed_bytes g"
  shows "f = g"
proof -
  let ?py = "\<lparr>item_separator = '', '', key_separator = '': '', sort_keys = True, escape = python_escape\<rparr>"
  let ?pd = "\<lparr>item_separator = '','', key_separator = '':'', sort_keys = False, escape = pydantic_escape\<rparr>"
  have epy: "escape ?py c = (case short_escape c of Some x \<Rightarrow> x
     | None \<Rightarrow> if 32 \<le> code_point c \<and> code_point c \<le> 126 then [c] else u_escape c)" for c
    unfolding python_escape_form [symmetric] by simp
  have epd: "escape ?pd c = (case short_escape c of Some x \<Rightarrow> x
     | None \<Rightarrow> if 32 \<le> code_point c then [c] else u_escape c)" for c
    unfolding pydantic_escape_form [symmetric] by simp
  have sk: "\<not> sort_keys ?pd" by simp
  from assms(2) have "encode ?py (JStr (model_dump_json f)) = encode ?py (JStr (model_dump_json g))"
    unfolding signed_bytes_def payload_bytes_def json_dumps_def by simp
  then have "encode_str ?py (model_dump_json f) @ [] = encode_str ?py (model_dump_json g) @ []"
    unfolding encode.simps by simp
  from encode_str_delimited [of ?py, OF epy this]
  have "model_dump_json f = model_dump_json g" by blast
  then have t: "encode ?pd (SignedFields_json f) = encode ?pd (SignedFields_json g)"
    unfolding model_dump_json_def pydantic_json_def .
  have "json_equal (SignedFields_json f) (SignedFields_json g)"
    using assms(1) by (rule SignedFields_json_equal)
  from json_equal_encode_inj [of ?pd, OF sk epd this t]
  have "SignedFields_json f = SignedFields_json g" .
  then show ?thesis by (rule SignedFields_json_inj)
qed

lemma nested_equal:
  "json_equal (JDict [(''a'', JInt 1), (''b'', JInt 2)]) (JDict [(''b'', JInt 2), (''a'', JInt 1)])"
  by auto

text \<open>
  Claim C1, amended. Two \<open>SignedFields\<close> values that are equal up to the order in which
  their dicts hold their items (the \<open>env\<close> dict and every dict inside \<open>volumes\<close> and
  \<open>uploads\<close>) are signed as the same bytes if and only if they hold the items of every dict
  in the same order, which in this model is to be the same value: any difference in the
  order of the items of \<open>env\<close>, or of a dict inside \<open>volumes\<close> or \<open>uploads\<close>, gives different
  bytes. The bytes are the JSON string literal of the text of \<open>model_dump_json()\<close>, the same
  with and without sorted keys, and the digest function hashes them after the 8 bytes of
  the timestamp.
\<close>

theorem signed_bytes_equal_iff:
  "(SignedFields_equal f g \<longrightarrow> (signed_bytes f = signed_bytes g \<longleftrightarrow> f = g))
   \<and> signed_bytes f = json_dumps False (JStr (model_dump_json f))
   \<and> (0 \<le> timestamp_ns sg \<and> timestamp_ns sg < 2 ^ 64 \<longrightarrow>
        hash_message_signature H (Json (JStr (model_dump_json f))) sg
        = Inr (H (big_endian_8 (timestamp_ns sg) @ signed_bytes f)))"
proof (intro conjI impI)
  assume "SignedFields_equal f g"
  then show "signed_bytes f = signed_bytes g \<longleftrightarrow> f = g"
    using signed_bytes_inj by blast
next
  show "signed_bytes f = json_dumps False (JStr (model_dump_json f))"
    unfolding signed_bytes_def payload_bytes_def json_dumps_def
    by (simp add: encode_str_def)
next
  assume "0 \<le> timestamp_ns sg \<and> timestamp_ns sg < 2 ^ 64"
  then show "hash_message_signature H (Json (JStr (model_dump_json f))) sg
        = Inr (H (big_endian_8 (timestamp_ns sg) @ signed_bytes f))"
    using hash_message_signature_eq [of sg H] by (simp add: signed_bytes_def)
qed

theorem signed_bytes_equal_iff_witness:
  "SignedFields_equal
     \<lparr>executor_class = ''e'', docker_image = ''alpine'', raw_script = [], args = ''echo hi'',
        env = [(''A'', ''1''), (''B'', ''2'')], use_gpu = True, volumes = [], uploads = []\<rparr>
     \<lparr>executor_class = ''e'', docker_image = ''alpine'', raw_script = [], args = ''echo hi'',
        env = [(''B'', ''2''), (''A'', ''1'')], use_gpu = True, volumes = [], uploads = []\<rparr>
   \<and> signed_bytes
       \<lparr>executor_class = ''e'', docker_image = ''alpine'', raw_script = [], args = ''echo hi'',
        env = [(''A'', ''1''), (''B'', ''2'')], use_gpu = True, volumes = [], uploads = []\<rparr>
     \<noteq> signed_bytes
       \<lparr>executor_class = ''e'', docker_image = ''alpine'', raw_script = [], args = ''echo hi'',
        env = [(''B'', ''2''), (''A'', ''1'')], use_gpu = True, volumes = [], uploads = []\<rparr>
   \<and> SignedFields_equal
     \<lparr>executor_class = ''e'', docker_image = ''alpine'', raw_script = [], args = ''echo hi'',
        env = [], use_gpu = True,
        volumes = [JDict [(''a'', JInt 1), (''b'', JInt 2)]], uploads = []\<rparr>
     \<lparr>executor_class = ''e'', docker_image = ''alpine'', raw_script = [], args = ''echo hi'',
        env = [], use_gpu = True,
        volumes = [JDict [(''b'', JInt 2), (''a'', JInt 1)]], uploads = []\<rparr>
   \<and> signed_bytes
       \<lparr>executor_class = ''e'', docker_image = ''alpine'', raw_script = [], args = ''echo hi'',
        env = [], use_gpu = True,
        volumes = [JDict [(''a'', JInt 1), (''b'', JInt 2)]], uploads = []\<rparr>
     \<noteq> signed_bytes
       \<lparr>executor_class = ''e'', docker_image = ''alpine'', raw_script = [], args = ''echo hi'',
        env = [], use_gpu = True,
        volumes = [JDict [(''b'', JInt 2), (''a'', JInt 1)]], uploads = []\<rparr>
   \<and> signed_bytes
       \<lparr>executor_class = ''e'', docker_image = ''alpine'', raw_script = [], args = ''echo hi'',
        env = [(''A'', ''1''), (''B'', ''2'')], use_gpu = True, volumes = [], uploads = []\<rparr>
     = json_dumps False (JStr (model_dump_json
       \<lparr>executor_class = ''e'', docker_image = ''alpine'', raw_script = [], args = ''echo hi'',
        env = [(''A'', ''1''), (''B'', ''2'')], use_gpu = True, volumes = [], uploads = []\<rparr>))
   \<and> hash_message_signature (\<lambda>x. x)
        (Json (JStr (model_dump_json
           \<lparr>executor_class = ''e'', docker_image = ''alpine'', raw_script = [], args = ''echo hi'',
            env = [(''A'', ''1''), (''B'', ''2'')], use_gpu = True, volumes = [], uploads = []\<rparr>)))
        \<lparr>signature_type = ''bittensor'', signatory = ''5F'', timestamp_ns = 258, signature = []\<rparr>
     = Inr ([CHR 0x00, CHR 0x00, CHR 0x00, CHR 0x00, CHR 0x00, CHR 0x00, CHR 0x01, CHR 0x02]
            @ signed_bytes
               \<lparr>executor_class = ''e'', docker_image = ''alpine'', raw_script = [], args = ''echo hi'',
                env = [(''A'', ''1''), (''B'', ''2'')], use_gpu = True, volumes = [], uploads = []\<rparr>)"
proof -
  let ?f = "\<lparr>executor_class = ''e'', docker_image = ''alpine'', raw_script = [], args = ''echo hi'',
        env = [(''A'', ''1''), (''B'', ''2'')], use_gpu = True, volumes = [], uploads = []\<rparr>"
  let ?g = "\<lparr>executor_class = ''e'', docker_image = ''alpine'', raw_script = [], args = ''echo hi'',
        env = [(''B'', ''2''), (''A'', ''1'')], use_gpu = True, volumes = [], uploads = []\<rparr>"
  let ?u = "\<lparr>executor_class = ''e'', docker_image = ''alpine'', raw_script = [], args = ''echo hi'',
        env = [], use_gpu = True,
        volumes = [JDict [(''a'', JInt 1), (''b'', JInt 2)]], uploads = []\<rparr>"
  let ?v = "\<lparr>executor_class = ''e'', docker_image = ''alpine'', raw_script = [], args = ''echo hi'',
        env = [], use_gpu = True,
        volumes = [JDict [(''b'', JInt 2), (''a'', JInt 1)]], uploads = []\<rparr>"
  let ?sg = "\<lparr>signature_type = ''bittensor'', signatory = ''5F'', timestamp_ns = 258, signature = []\<rparr>"
  have "map_of [(''A'', ''1''), (''B'', ''2'')] = map_of [(''B'', ''2''), (''A'', ''1'')]"
    by (auto simp: fun_eq_iff)
  then have e1: "SignedFields_equal ?f ?g"
    unfolding SignedFields_equal_def by simp
  have e2: "SignedFields_equal ?u ?v"
    unfolding SignedFields_equal_def using nested_equal by simp
  have n1: "?f \<noteq> ?g" by simp
  have n2: "?u \<noteq> ?v" by simp
  from signed_bytes_equal_iff [of ?f ?g ?sg "\<lambda>x. x"] e1 n1
  have b1: "signed_bytes ?f \<noteq> signed_bytes ?g" by blast
  from signed_bytes_equal_iff [of ?u ?v ?sg "\<lambda>x. x"] e2 n2
  have b2: "signed_bytes ?u \<noteq> signed_bytes ?v" by blast
  note t = signed_bytes_equal_iff [of ?f ?g ?sg "\<lambda>x. x"]
  have r: "0 \<le> timestamp_ns ?sg \<and> timestamp_ns ?sg < 2 ^ 64" by simp
  have ts: "timestamp_ns ?sg = 258" by simp
  from t r have "hash_message_signature (\<lambda>x. x) (Json (JStr (model_dump_json ?f))) ?sg
        = Inr (big_endian_8 (timestamp_ns ?sg) @ signed_bytes ?f)"
    by blast
  then have h: "hash_message_signature (\<lambda>x. x) (Json (JStr (model_dump_json ?f))) ?sg
        = Inr ([CHR 0x00, CHR 0x00, CHR 0x00, CHR 0x00, CHR 0x00, CHR 0x00, CHR 0x01, CHR 0x02]
               @ signed_bytes ?f)"
    unfolding ts big_endian_8_258 .
  from t have d: "signed_bytes ?f = json_dumps False (JStr (model_dump_json ?f))"
    by blast
  from e1 b1 e2 b2 d h show ?thesis by (intro conjI)
qed

subsection \<open>Requests to the facilitator\<close>

lemma make_request_eq:
  "make_request ext w meth url body ps hs =
     (let req = \<lparr>req_method = meth, req_url = url, req_json = body, req_params = ps, req_headers = hs\<rparr>;
          code = status_code (respond ext (length (sent w)) req)
      in (if is_success code then Inr (response_text (respond ext (length (sent w)) req))
          else Inl (status_error code), after_request ext w req))"
  by (simp add: make_request_def Let_def after_request_def status_error_def)

lemma get_job_eq:
  "get_job ext w u =
     (let resp = respond ext (length (sent w)) (job_request u)
      in (if is_success (status_code resp) then
            (case model_validate_json ext (response_text resp) of
               None \<Rightarrow> Inl (ComputeHordeError ''Compute Horde returned malformed response'')
             | Some r \<Rightarrow> Inr (from_response r))
          else Inl (status_error (status_code resp)),
          after_request ext w (job_request u)))"
  by (simp add: get_job_def make_request_eq Let_def job_request_def split: option.splits)

lemma refresh_eq:
  "refresh_from_facilitator ext w job =
     (let resp = respond ext (length (sent w)) (job_request (uuid job))
      in (if is_success (status_code resp) then
            (case model_validate_json ext (response_text resp) of
               None \<Rightarrow> (Inl (ComputeHordeError ''Compute Horde returned malformed response''),
                        after_request ext w (job_request (uuid job)), job)
             | Some r \<Rightarrow> (Inr (), after_request ext w (job_request (uuid job)),
                          job\<lparr>status := r_status r,
                              result := (if r_stdout r \<noteq> [] then Some (r_stdout r) else None)\<rparr>))
          else (Inl (status_error (status_code resp)),
                after_request ext w (job_request (uuid job)), job)))"
  by (simp add: refresh_from_facilitator_def get_job_eq Let_def from_response_def split: option.splits)

lemma str_nat_404: "str_nat 404 = ''404''"
  by (simp add: digit_char_def char_of_eq_iff)

lemma str_nat_500: "str_nat 500 = ''500''"
  by (simp add: digit_char_def char_of_eq_iff)

subsection \<open>Refreshing a job\<close>

text \<open>
  Claim C2, as stated, fails: a first refresh observes \<open>COMPLETED\<close>, the facilitator then
  reports \<open>FAILED\<close>, and the second refresh returns without an error, with the stored status
  overwritten.
\<close>

theorem refresh_overwrites_counterexample:
  "refresh_from_facilitator
       (example_externals (\<lambda>k. if k = 0 then \<lparr>status_code = 200, response_text = ''COMPLETED''\<rparr>
                                else \<lparr>status_code = 200, response_text = ''FAILED''\<rparr>))
       \<lparr>clock = 0, sent = []\<rparr> \<lparr>uuid = ''j1'', status = PENDING, result = None\<rparr>
     = (Inr (), \<lparr>clock = 0, sent = [job_request ''j1'']\<rparr>,
        \<lparr>uuid = ''j1'', status = COMPLETED, result = Some ''hi''\<rparr>)
   \<and> refresh_from_facilitator
       (example_externals (\<lambda>k. if k = 0 then \<lparr>status_code = 200, response_text = ''COMPLETED''\<rparr>
                                else \<lparr>status_code = 200, response_text = ''FAILED''\<rparr>))
       \<lparr>clock = 0, sent = [job_request ''j1'']\<rparr>
       \<lparr>uuid = ''j1'', status = COMPLETED, result = Some ''hi''\<rparr>
     = (Inr (), \<lparr>clock = 0, sent = [job_request ''j1'', job_request ''j1'']\<rparr>,
        \<lparr>uuid = ''j1'', status = FAILED, result = None\<rparr>)"
  by (simp add: refresh_eq Let_def example_externals_def example_parser_def after_request_def
        is_success_def)

text \<open>
  Claim C2, amended. A refresh overwrites the status and the result of the job with what
  the facilitator reports, whatever the stored status, and raises no inconsistency error.
  It fails only when \<open>get_job\<close> does (a status code that is not a success, or a body that
  does not parse), and then it leaves the job as it was.
\<close>

theorem refresh_overwrites:
  "(is_success (status_code (respond ext (length (sent w)) (job_request (uuid job))))
      \<and> model_validate_json ext (response_text (respond ext (length (sent w)) (job_request (uuid job))))
          = Some r
    \<longrightarrow> refresh_from_facilitator ext w job
        = (Inr (), after_request ext w (job_request (uuid job)),
           job\<lparr>status := r_status r,
               result := (if r_stdout r \<noteq> [] then Some (r_stdout r) else None)\<rparr>))
   \<and> (is_success (status_code (respond ext (length (sent w)) (job_request (uuid job))))
      \<and> model_validate_json ext (response_text (respond ext (length (sent w)) (job_request (uuid job))))
          = None
    \<longrightarrow> refresh_from_facilitator ext w job
        = (Inl (ComputeHordeError ''Compute Horde returned malformed response''),
           after_request ext w (job_request (uuid job)), job))
   \<and> (\<not> is_success (status_code (respond ext (length (sent w)) (job_request (uuid job))))
    \<longrightarrow> refresh_from_facilitator ext w job
        = (Inl (status_error (status_code (respond ext (length (sent w)) (job_request (uuid job))))),
           after_request ext w (job_request (uuid job)), job))"
  by (simp add: refresh_eq Let_def)

theorem refresh_overwrites_witness:
  "refresh_from_facilitator
       (example_externals (\<lambda>k. \<lparr>status_code = 200, response_text = ''FAILED''\<rparr>))
       \<lparr>clock = 0, sent = []\<rparr> \<lparr>uuid = ''j1'', status = COMPLETED, result = Some ''hi''\<rparr>
     = (Inr (), \<lparr>clock = 0, sent = [job_request ''j1'']\<rparr>,
        \<lparr>uuid = ''j1'', status = FAILED, result = None\<rparr>)
   \<and> refresh_from_facilitator
       (example_externals (\<lambda>k. \<lparr>status_code = 200, response_text = ''{''\<rparr>))
       \<lparr>clock = 0, sent = []\<rparr> \<lparr>uuid = ''j1'', status = PENDING, result = None\<rparr>
     = (Inl (ComputeHordeError ''Compute Horde returned malformed response''),
        \<lparr>clock = 0, sent = [job_request ''j1'']\<rparr>,
        \<lparr>uuid = ''j1'', status = PENDING, result = None\<rparr>)
   \<and> refresh_from_facilitator
       (example_externals (\<lambda>k. \<lparr>status_code = 404, response_text = []\<rparr>))
       \<lparr>clock = 0, sent = []\<rparr> \<lparr>uuid = ''j1'', status = PENDING, result = None\<rparr>
     = (Inl (ComputeHordeError ''Compute Horde responded with status code 404''),
        \<lparr>clock = 0, sent = [job_request ''j1'']\<rparr>,
        \<lparr>uuid = ''j1'', status = PENDING, result = None\<rparr>)"
proof -
  let ?w = "\<lparr>clock = 0, sent = []\<rparr>"
  let ?e1 = "example_externals (\<lambda>k. \<lparr>status_code = 200, response_text = ''FAILED''\<rparr>)"
  let ?e2 = "example_externals (\<lambda>k. \<lparr>status_code = 200, response_text = ''{''\<rparr>)"
  let ?e3 = "example_externals (\<lambda>k. \<lparr>status_code = 404, response_text = []\<rparr>)"
  let ?j1 = "\<lparr>uuid = ''j1'', status = COMPLETED, result = Some ''hi''\<rparr>"
  let ?j2 = "\<lparr>uuid = ''j1'', status = PENDING, result = None\<rparr>"
  have a: "refresh_from_facilitator ?e1 ?w ?j1
     = (Inr (), \<lparr>clock = 0, sent = [job_request ''j1'']\<rparr>,
        \<lparr>uuid = ''j1'', status = FAILED, result = None\<rparr>)"
    using refresh_overwrites [of ?e1 ?w ?j1 "\<lparr>r_uuid = ''j1'', r_status = FAILED, r_stdout = []\<rparr>"]
    by (simp add: example_externals_def example_parser_def is_success_def after_request_def)
  have b: "refresh_from_facilitator ?e2 ?w ?j2
     = (Inl (ComputeHordeError ''Compute Horde returned malformed response''),
        \<lparr>clock = 0, sent = [job_request ''j1'']\<rparr>, ?j2)"
    using refresh_overwrites [of ?e2 ?w ?j2]
    by (simp add: example_externals_def example_parser_def is_success_def after_request_def)
  have c: "refresh_from_facilitator ?e3 ?w ?j2
     = (Inl (ComputeHordeError ''Compute Horde responded with status code 404''),
        \<lparr>clock = 0, sent = [job_request ''j1'']\<rparr>, ?j2)"
    using refresh_overwrites [of ?e3 ?w ?j2]
    by (simp add: example_externals_def is_success_def after_request_def status_error_def
          str_nat_404 del: str_nat.simps)
  from a b c show ?thesis by (intro conjI)
qed

subsection \<open>The errors of \<open>get_job\<close>\<close>

text \<open>
  Claim C6, as stated, fails: for the status codes 404 and 500 \<open>get_job\<close> raises errors of
  the same class, \<open>ComputeHordeError\<close>, which differ in their message only.
\<close>

theorem get_job_errors_counterexample:
  "fst (get_job (example_externals (\<lambda>k. \<lparr>status_code = 404, response_text = []\<rparr>))
          \<lparr>clock = 0, sent = []\<rparr> ''j1'')
     = Inl (ComputeHordeError ''Compute Horde responded with status code 404'')
   \<and> fst (get_job (example_externals (\<lambda>k. \<lparr>status_code = 500, response_text = []\<rparr>))
          \<lparr>clock = 0, sent = []\<rparr> ''j1'')
     = Inl (ComputeHordeError ''Compute Horde responded with status code 500'')
   \<and> class_of (ComputeHordeError ''Compute Horde responded with status code 404'')
     = class_of (ComputeHordeError ''Compute Horde responded with status code 500'')"
  by (simp add: get_job_eq Let_def example_externals_def is_success_def status_error_def
        str_nat_404 str_nat_500 del: str_nat.simps)

text \<open>
  Claim C6, amended. For every job id, \<open>get_job\<close> fails with a \<open>ComputeHordeError\<close> whose
  message names the status code when that code is not a success, 404 included, and with a
  \<open>ComputeHordeError\<close> when the body of a success response does not parse; every error it
  raises is of that one class.
\<close>

theorem get_job_errors:
  "(\<not> is_success (status_code (respond ext (length (sent w)) (job_request u)))
      \<longrightarrow> fst (get_job ext w u)
          = Inl (ComputeHordeError (''Compute Horde responded with status code ''
                  @ str_nat (status_code (respond ext (length (sent w)) (job_request u))))))
   \<and> (is_success (status_code (respond ext (length (sent w)) (job_request u)))
      \<and> model_validate_json ext (response_text (respond ext (length (sent w)) (job_request u))) = None
      \<longrightarrow> fst (get_job ext w u)
          = Inl (ComputeHordeError ''Compute Horde returned malformed response''))
   \<and> (is_success (status_code (respond ext (length (sent w)) (job_request u)))
      \<and> model_validate_json ext (response_text (respond ext (length (sent w)) (job_request u))) = Some r
      \<longrightarrow> fst (get_job ext w u) = Inr (from_response r))
   \<and> (\<forall>e. fst (get_job ext w u) = Inl e \<longrightarrow> class_of e = ComputeHordeError_class)"
  by (auto simp: get_job_eq Let_def status_error_def split: option.splits if_splits)

theorem get_job_errors_witness:
  "fst (get_job (example_externals (\<lambda>k. \<lparr>status_code = 404, response_text = []\<rparr>))
          \<lparr>clock = 0, sent = []\<rparr> ''j1'')
     = Inl (ComputeHordeError ''Compute Horde responded with status code 404'')
   \<and> fst (get_job (example_externals (\<lambda>k. \<lparr>status_code = 200, response_text = ''{''\<rparr>))
          \<lparr>clock = 0, sent = []\<rparr> ''j1'')
     = Inl (ComputeHordeError ''Compute Horde returned malformed response'')
   \<and> fst (get_job (example_externals (\<lambda>k. \<lparr>status_code = 200, response_text = ''COMPLETED''\<rparr>))
          \<lparr>clock = 0, sent = []\<rparr> ''j1'')
     = Inr \<lparr>uuid = ''j1'', status = COMPLETED, result = Some ''hi''\<rparr>"
proof -
  let ?w = "\<lparr>clock = 0, sent = []\<rparr>"
  let ?e1 = "example_externals (\<lambda>k. \<lparr>status_code = 404, response_text = []\<rparr>)"
  let ?e2 = "example_externals (\<lambda>k. \<lparr>status_code = 200, response_text = ''{''\<rparr>)"
  let ?e3 = "example_externals (\<lambda>k. \<lparr>status_code = 200, response_text = ''COMPLETED''\<rparr>)"
  have a: "fst (get_job ?e1 ?w ''j1'')
     = Inl (ComputeHordeError ''Compute Horde responded with status code 404'')"
    using get_job_errors [of ?e1 ?w "''j1''"]
    by (simp add: example_externals_def is_success_def str_nat_404 del: str_nat.simps)
  have b: "fst (get_job ?e2 ?w ''j1'')
     = Inl (ComputeHordeError ''Compute Horde returned malformed response'')"
    using get_job_errors [of ?e2 ?w "''j1''"]
    by (simp add: example_externals_def example_parser_def is_success_def)
  have c: "fst (get_job ?e3 ?w ''j1'')
     = Inr \<lparr>uuid = ''j1'', status = COMPLETED, result = Some ''hi''\<rparr>"
    using get_job_errors [of ?e3 ?w "''j1''" "\<lparr>r_uuid = ''j1'', r_status = COMPLETED, r_stdout = ''hi''\<rparr>"]
    by (simp add: example_externals_def example_parser_def is_success_def from_response_def)
  from a b c show ?thesis by (intro conjI)
qed

subsection \<open>Feedback\<close>

lemma feedback_none:
  "is_finite x \<Longrightarrow>
   submit_feedback ext w job x None
   = (case make_request ext w ''PUT'' (''/jobs/'' @ uuid job @ ''/feedback/'')
           (Some (JDict [(''result_correctness'', JFloat (float_text ext x))])) [] [] of
        (Inl e, w') \<Rightarrow> (Inl e, w') | (Inr txt, w') \<Rightarrow> (Inr (), w'))"
  by (simp add: submit_feedback_def submit_job_feedback_def float_json_def)

lemma feedback_some:
  "is_finite x \<Longrightarrow> is_finite y \<Longrightarrow>
   submit_feedback ext w job x (Some y)
   = (case make_request ext w ''PUT'' (''/jobs/'' @ uuid job @ ''/feedback/'')
           (Some (JDict [(''result_correctness'', JFloat (float_text ext x)),
                         (''expected_duration'', JFloat (float_text ext y))])) [] [] of
        (Inl e, w') \<Rightarrow> (Inl e, w') | (Inr txt, w') \<Rightarrow> (Inr (), w'))"
  by (simp add: submit_feedback_def submit_job_feedback_def float_json_def)

lemma feedback_result:
  assumes "is_finite x" and "case d of None \<Rightarrow> True | Some y \<Rightarrow> is_finite y"
  shows "submit_feedback ext w job x d
     = (if is_success (status_code (respond ext (length (sent w)) (feedback_request ext (uuid job) x d)))
        then Inr ()
        else Inl (status_error (status_code (respond ext (length (sent w))
               (feedback_request ext (uuid job) x d)))),
        after_request ext w (feedback_request ext (uuid job) x d))"
proof (cases d)
  case None
  with assms show ?thesis
    by (simp add: feedback_none make_request_eq feedback_request_def Let_def)
next
  case (Some y)
  with assms show ?thesis
    by (simp add: feedback_some make_request_eq feedback_request_def Let_def)
qed

text \<open>
  A float that is not finite, where the HTTP client encodes with \<open>allow_nan=False\<close>: the
  call raises \<open>ValueError\<close> and nothing is sent.
\<close>

lemma submit_feedback_not_finite:
  "\<not> is_finite x \<Longrightarrow> \<not> allow_nan ext \<Longrightarrow>
   submit_feedback ext w job x d = (Inl (ValueError (nan_error ext x)), w)"
  by (simp add: submit_feedback_def submit_job_feedback_def float_json_def)

text \<open>
  Claim C3, as stated, fails: for the correctness 1.5, outside the interval from 0 to 1,
  \<open>submit_feedback\<close> raises nothing and sends its request.
\<close>

theorem submit_feedback_counterexample:
  "\<not> (0 \<le> (3 / 2 :: real) \<and> (3 / 2 :: real) \<le> 1)
   \<and> submit_feedback (example_externals (\<lambda>k. \<lparr>status_code = 200, response_text = []\<rparr>))
        \<lparr>clock = 0, sent = []\<rparr> \<lparr>uuid = ''j1'', status = COMPLETED, result = Some ''hi''\<rparr>
        (Finite (3 / 2)) None
     = (Inr (),
        \<lparr>clock = 0,
         sent = [\<lparr>req_method = ''PUT'', req_url = ''/jobs/j1/feedback/'',
                  req_json = Some (JDict [(''result_correctness'', JFloat ''1.5'')]),
                  req_params = [], req_headers = []\<rparr>]\<rparr>)"
  by (simp add: submit_feedback_def submit_job_feedback_def float_json_def make_request_eq
        Let_def example_externals_def is_success_def after_request_def)

text \<open>
  Claim C3, amended. For every job and every finite correctness, in the interval from 0 to
  1 or outside (1.5 for one), with an expected duration that is finite or absent,
  \<open>submit_feedback\<close> checks no range: it sends one request, a \<open>PUT\<close> to the feedback address of
  the job, whose body carries the correctness as given, and, the facilitator having
  answered, it fails only when the status code of the response is not a success, with a
  \<open>ComputeHordeError\<close>. The correctness 0 and the correctness 1 are sent like any other.
\<close>

theorem submit_feedback_sends:
  "is_finite x \<and> (case d of None \<Rightarrow> True | Some y \<Rightarrow> is_finite y) \<longrightarrow>
   sent (snd (submit_feedback ext w job x d)) = sent w @ [feedback_request ext (uuid job) x d]
   \<and> fst (submit_feedback ext w job x d)
     = (if is_success (status_code (respond ext (length (sent w)) (feedback_request ext (uuid job) x d)))
        then Inr ()
        else Inl (ComputeHordeError (''Compute Horde responded with status code ''
               @ str_nat (status_code (respond ext (length (sent w))
                    (feedback_request ext (uuid job) x d))))))"
proof (intro impI conjI)
  assume fin: "is_finite x \<and> (case d of None \<Rightarrow> True | Some y \<Rightarrow> is_finite y)"
  then have r: "submit_feedback ext w job x d
     = (if is_success (status_code (respond ext (length (sent w)) (feedback_request ext (uuid job) x d)))
        then Inr ()
        else Inl (status_error (status_code (respond ext (length (sent w))
               (feedback_request ext (uuid job) x d)))),
        after_request ext w (feedback_request ext (uuid job) x d))"
    using feedback_result by blast
  show "sent (snd (submit_feedback ext w job x d)) = sent w @ [feedback_request ext (uuid job) x d]"
    unfolding r by (simp add: after_request_def)
  show "fst (submit_feedback ext w job x d)
     = (if is_success (status_code (respond ext (length (sent w)) (feedback_request ext (uuid job) x d)))
        then Inr ()
        else Inl (ComputeHordeError (''Compute Horde responded with status code ''
               @ str_nat (status_code (respond ext (length (sent w))
                    (feedback_request ext (uuid job) x d))))))"
    unfolding r fst_conv status_error_def by (rule refl)
qed

theorem submit_feedback_sends_witness:
  "is_finite (Finite 0) \<and> is_finite (Finite 1)
   \<and> submit_feedback (example_externals (\<lambda>k. \<lparr>status_code = 200, response_text = []\<rparr>))
        \<lparr>clock = 0, sent = []\<rparr> \<lparr>uuid = ''j1'', status = COMPLETED, result = Some ''hi''\<rparr>
        (Finite 0) None
     = (Inr (),
        \<lparr>clock = 0,
         sent = [\<lparr>req_method = ''PUT'', req_url = ''/jobs/j1/feedback/'',
                  req_json = Some (JDict [(''result_correctness'', JFloat ''0.0'')]),
                  req_params = [], req_headers = []\<rparr>]\<rparr>)
   \<and> submit_feedback (example_externals (\<lambda>k. \<lparr>status_code = 200, response_text = []\<rparr>))
        \<lparr>clock = 0, sent = []\<rparr> \<lparr>uuid = ''j1'', status = COMPLETED, result = Some ''hi''\<rparr>
        (Finite 1) None
     = (Inr (),
        \<lparr>clock = 0,
         sent = [\<lparr>req_method = ''PUT'', req_url = ''/jobs/j1/feedback/'',
                  req_json = Some (JDict [(''result_correctness'', JFloat ''1.0'')]),
                  req_params = [], req_headers = []\<rparr>]\<rparr>)"
proof -
  let ?e = "example_externals (\<lambda>k. \<lparr>status_code = 200, response_text = []\<rparr>)"
  let ?w = "\<lparr>clock = 0, sent = []\<rparr>"
  let ?j = "\<lparr>uuid = ''j1'', status = COMPLETED, result = Some ''hi''\<rparr>"
  have c: "clock (snd (submit_feedback ?e ?w ?j (Finite x) None)) = 0" for x
    by (simp add: submit_feedback_def submit_job_feedback_def float_json_def make_request_eq
          Let_def after_request_def example_externals_def)
  have a: "submit_feedback ?e ?w ?j (Finite 0) None
     = (Inr (), \<lparr>clock = 0,
         sent = [\<lparr>req_method = ''PUT'', req_url = ''/jobs/j1/feedback/'',
                  req_json = Some (JDict [(''result_correctness'', JFloat ''0.0'')]),
                  req_params = [], req_headers = []\<rparr>]\<rparr>)"
    using submit_feedback_sends [of "Finite 0" None ?e ?w ?j] c [of 0]
    by (simp add: prod_eq_iff feedback_request_def example_externals_def is_success_def)
  have b: "submit_feedback ?e ?w ?j (Finite 1) None
     = (Inr (), \<lparr>clock = 0,
         sent = [\<lparr>req_method = ''PUT'', req_url = ''/jobs/j1/feedback/'',
                  req_json = Some (JDict [(''result_correctness'', JFloat ''1.0'')]),
                  req_params = [], req_headers = []\<rparr>]\<rparr>)"
    using submit_feedback_sends [of "Finite 1" None ?e ?w ?j] c [of 1]
    by (simp add: prod_eq_iff feedback_request_def example_externals_def is_success_def)
  from a b show ?thesis by simp
qed

subsection \<open>Decoding the signature field\<close>

lemma a2b_loop_filter:
  "a2b_loop st (filter (\<lambda>c. is_b64_data c \<or> c = CHR ''='') s) = a2b_loop st s"
  by (induction s arbitrary: st) (auto simp: is_b64_data_def split: option.splits)

lemma quad_pos_a2b_data:
  "quad_pos st < 4 \<Longrightarrow> quad_pos (a2b_data st v) = (quad_pos st + 1) mod 4"
  by (cases "quad_pos st = 0"; cases "quad_pos st = 1"; cases "quad_pos st = 2";
      cases "quad_pos st = 3")
     (simp_all add: a2b_data_def)

lemma a2b_loop_fails_iff:
  "CHR ''='' \<notin> set s \<Longrightarrow> quad_pos st < 4 \<Longrightarrow>
     isl (a2b_loop st s) \<longleftrightarrow> (quad_pos st + length (filter is_b64_data s)) mod 4 \<noteq> 0"
proof (induction s arbitrary: st)
  case Nil
  then show ?case by simp
next
  case (Cons c cs)
  from Cons.prems(1) have ne: "c \<noteq> CHR ''=''" and cs: "CHR ''='' \<notin> set cs"
    by auto
  show ?case
  proof (cases "b64_value c")
    case None
    with Cons.IH [OF cs Cons.prems(2)] ne show ?thesis by (simp add: is_b64_data_def)
  next
    case (Some v)
    have q: "quad_pos (a2b_data st v) < 4"
      using quad_pos_a2b_data [OF Cons.prems(2)] by simp
    have "isl (a2b_loop st (c # cs)) = isl (a2b_loop (a2b_data st v) cs)"
      using Some ne by simp
    also have "\<dots> \<longleftrightarrow> (quad_pos (a2b_data st v) + length (filter is_b64_data cs)) mod 4 \<noteq> 0"
      by (rule Cons.IH [OF cs q])
    also have "\<dots> \<longleftrightarrow> (quad_pos st + length (filter is_b64_data (c # cs))) mod 4 \<noteq> 0"
      using Some quad_pos_a2b_data [OF Cons.prems(2), of v]
      by (simp add: is_b64_data_def mod_simps)
    finally show ?thesis .
  qed
qed

text \<open>
  Claim C5, amended. Decoding the signature field discards every character that is
  neither of the base64 alphabet nor the padding character. On a field without padding
  characters it fails exactly when the number of its alphabet characters is not a multiple
  of four. Every failure is pydantic's \<open>ValidationError\<close>: the code has no
  \<open>MalformedSignatureError\<close>.
\<close>

theorem validate_signature_lenient:
  "validate_signature (filter (\<lambda>c. is_b64_data c \<or> c = CHR ''='') s) = validate_signature s
   \<and> (CHR ''='' \<notin> set s \<longrightarrow>
        (validate_signature s = Inl PydanticValidationError
           \<longleftrightarrow> length (filter is_b64_data s) mod 4 \<noteq> 0))
   \<and> (\<forall>e. validate_signature s = Inl e \<longrightarrow> e = PydanticValidationError)"
proof (intro conjI impI allI)
  show "validate_signature (filter (\<lambda>c. is_b64_data c \<or> c = CHR ''='') s) = validate_signature s"
    by (simp add: validate_signature_def b64decode_def a2b_loop_filter)
next
  assume "CHR ''='' \<notin> set s"
  then have "isl (b64decode s) \<longleftrightarrow> length (filter is_b64_data s) mod 4 \<noteq> 0"
    unfolding b64decode_def
    using a2b_loop_fails_iff [of s a2b_init] by (simp add: a2b_init_def)
  then show "validate_signature s = Inl PydanticValidationError
           \<longleftrightarrow> length (filter is_b64_data s) mod 4 \<noteq> 0"
    by (cases "b64decode s") (simp_all add: validate_signature_def)
next
  fix e assume "validate_signature s = Inl e"
  then show "e = PydanticValidationError"
    by (cases "b64decode s") (simp_all add: validate_signature_def)
qed

lemma b64_values:
  "b64_value CHR ''Q'' = Some 16" "b64_value CHR ''U'' = Some 20" "b64_value CHR ''J'' = Some 9"
  "b64_value CHR ''D'' = Some 3" "b64_value CHR ''I'' = Some 8" "b64_value CHR ''!'' = None"
  "b64_value CHR ''='' = None"
  by (simp_all add: b64_value_def code_point_def)

text \<open>
  Claim C5, as stated, fails: a field that holds a character outside the alphabet decodes,
  the character dropped; and a field with data after its padding decodes to the bytes before
  the padding, the rest dropped.
\<close>

theorem validate_signature_counterexample:
  "\<not> standard_base64 ''QU!JD''
   \<and> validate_signature ''QU!JD'' = Inr ''ABC''
   \<and> \<not> standard_base64 ''QUI=QUJD''
   \<and> validate_signature ''QUI=QUJD'' = Inr ''AB''"
  by (simp add: standard_base64_def is_b64_data_def b64_values validate_signature_def
        b64decode_def a2b_init_def a2b_data_def char_of_eq_iff)

theorem validate_signature_lenient_witness:
  "validate_signature ''QUJD'' = validate_signature ''QU!JD''
   \<and> CHR ''='' \<notin> set ''QUJ''
   \<and> validate_signature ''QUJ'' = Inl PydanticValidationError
   \<and> validate_signature ''Q'' = Inl PydanticValidationError"
proof -
  have f: "filter (\<lambda>c. is_b64_data c \<or> c = CHR ''='') ''QU!JD'' = ''QUJD''"
    by (simp add: is_b64_data_def b64_values)
  have a: "validate_signature ''QUJD'' = validate_signature ''QU!JD''"
    using validate_signature_lenient [of "''QU!JD''"] unfolding f by blast
  have n: "CHR ''='' \<notin> set ''QUJ''" "CHR ''='' \<notin> set ''Q''" by simp_all
  have l: "length (filter is_b64_data ''QUJ'') mod 4 \<noteq> 0" "length (filter is_b64_data ''Q'') mod 4 \<noteq> 0"
    by (simp_all add: is_b64_data_def b64_values)
  have b: "validate_signature ''QUJ'' = Inl PydanticValidationError"
    using validate_signature_lenient [of "''QUJ''"] n l by blast
  have c: "validate_signature ''Q'' = Inl PydanticValidationError"
    using validate_signature_lenient [of "''Q''"] n l by blast
  from a n b c show ?thesis by (intro conjI)
qed

subsection \<open>Waiting for a job\<close>

lemma refresh_reported:
  "reported ext (length (sent w)) (uuid job) = Some r \<Longrightarrow>
     refresh_from_facilitator ext w job
       = (Inr (), after_request ext w (job_request (uuid job)), refreshed job r)"
  by (simp add: refresh_eq reported_def Let_def refreshed_def split: if_splits)

lemma wait_loop_terminal:
  "\<not> is_in_progress (status job) \<Longrightarrow> wait_loop ext timeout s w job = Some (Inr (), w, job)"
  by (subst wait_loop.simps) simp

lemma wait_loop_timed_out:
  "is_in_progress (status job) \<Longrightarrow> t < clock w - s \<Longrightarrow>
     wait_loop ext (Some t) s w job
       = Some (Inl (ComputeHordeJobTimeoutError (uuid job) t (status job)), w, job)"
  by (subst wait_loop.simps) simp

lemma wait_loop_poll:
  assumes "is_in_progress (status job)"
    and "case timeout of None \<Rightarrow> True | Some t \<Rightarrow> clock w - s \<le> t"
    and "reported ext (length (sent w)) (uuid job) = Some r"
  shows "wait_loop ext timeout s w job
       = wait_loop ext timeout s
           (sleep ext JOB_REFRESH_INTERVAL (after_request ext w (job_request (uuid job))))
           (refreshed job r)"
proof -
  have "\<not> (case timeout of None \<Rightarrow> False | Some t \<Rightarrow> t < clock w - s)"
    using assms(2) by (cases timeout) simp_all
  then show ?thesis
    using assms(1) refresh_reported [OF assms(3)]
    by (subst wait_loop.simps) simp
qed

lemma wait_loop_times_out:
  assumes rt: "\<forall>k. 0 \<le> round_trip ext k" and lag: "\<forall>k. 0 \<le> sleep_lag ext k"
    and rep: "\<forall>k. \<exists>r. reported ext k u = Some r \<and> is_in_progress (r_status r)"
  shows "uuid job = u \<Longrightarrow> is_in_progress (status job) \<Longrightarrow> t - (clock w - s) < 3 * real n \<Longrightarrow>
     \<exists>w' job'. wait_loop ext (Some t) s w job
                  = Some (Inl (ComputeHordeJobTimeoutError u t (status job')), w', job')
        \<and> t < clock w' - s \<and> uuid job' = u \<and> is_in_progress (status job')
        \<and> (w' = w \<and> job' = job
           \<or> (\<exists>r. length (sent w) < length (sent w')
                  \<and> reported ext (length (sent w') - 1) u = Some r \<and> status job' = r_status r))"
proof (induction n arbitrary: w job)
  case 0
  then have "t < clock w - s" by simp
  from wait_loop_timed_out [OF "0.prems"(2) this, of ext] "0.prems"(1,2) this
  show ?case by auto
next
  case (Suc n)
  show ?case
  proof (cases "t < clock w - s")
    case True
    from wait_loop_timed_out [OF Suc.prems(2) this, of ext] Suc.prems(1,2) this
    show ?thesis by auto
  next
    case False
    from rep obtain r where r: "reported ext (length (sent w)) u = Some r"
      and ip: "is_in_progress (r_status r)"
      by blast
    let ?w1 = "sleep ext JOB_REFRESH_INTERVAL (after_request ext w (job_request (uuid job)))"
    let ?j1 = "refreshed job r"
    have np: "case Some t of None \<Rightarrow> True | Some t' \<Rightarrow> clock w - s \<le> t'"
      using False by simp
    have r': "reported ext (length (sent w)) (uuid job) = Some r"
      using r Suc.prems(1) by simp
    have step: "wait_loop ext (Some t) s w job = wait_loop ext (Some t) s ?w1 ?j1"
      by (rule wait_loop_poll [OF Suc.prems(2) np r'])
    have j1: "uuid ?j1 = u" "is_in_progress (status ?j1)" "status ?j1 = r_status r"
      using Suc.prems(1) ip by (simp_all add: refreshed_def)
    have len: "length (sent ?w1) = Suc (length (sent w))"
      by (simp add: sleep_def after_request_def)
    have "clock ?w1 = clock w + round_trip ext (length (sent w)) + 3
                       + sleep_lag ext (Suc (length (sent w)))"
      by (simp add: sleep_def after_request_def JOB_REFRESH_INTERVAL_def)
    with rt lag have "clock w + 3 \<le> clock ?w1"
      by (smt (verit, best))
    with Suc.prems(3) have "t - (clock ?w1 - s) < 3 * real n"
      by simp
    from Suc.IH [OF j1(1) j1(2) this] obtain w' job' where
      res: "wait_loop ext (Some t) s ?w1 ?j1
              = Some (Inl (ComputeHordeJobTimeoutError u t (status job')), w', job')"
      and fin: "t < clock w' - s" "uuid job' = u" "is_in_progress (status job')"
      and last: "w' = ?w1 \<and> job' = ?j1
           \<or> (\<exists>r. length (sent ?w1) < length (sent w')
                  \<and> reported ext (length (sent w') - 1) u = Some r \<and> status job' = r_status r)"
      by blast
    from last have "\<exists>r. length (sent w) < length (sent w')
                  \<and> reported ext (length (sent w') - 1) u = Some r \<and> status job' = r_status r"
    proof
      assume "w' = ?w1 \<and> job' = ?j1"
      with len r j1(3) show ?thesis by auto
    next
      assume "\<exists>r. length (sent ?w1) < length (sent w')
                  \<and> reported ext (length (sent w') - 1) u = Some r \<and> status job' = r_status r"
      with len show ?thesis by auto
    qed
    with res fin step show ?thesis by auto
  qed
qed

text \<open>
  Claim C4. Time is the clock of the world: a request and a sleep never turn it back, and a
  sleep takes at least the refresh interval. For a job in progress that the facilitator
  reports as in progress at every request, and for every timeout, \<open>wait\<close> returns, with
  the timeout error; the error carries the job's last status; more than the timeout has
  then passed since the call; and the job holds the status the facilitator reported last
  (the job is untouched when no request was sent). For a job whose status is terminal,
  \<open>wait\<close> returns at once without an error; and when a refresh of the loop is given a
  terminal status, the loop ends without an error, the job holding that status.
\<close>

theorem wait_times_out:
  "((\<forall>k. 0 \<le> round_trip ext k) \<and> (\<forall>k. 0 \<le> sleep_lag ext k)
      \<and> (\<forall>k. \<exists>r. reported ext k (uuid job) = Some r \<and> is_in_progress (r_status r))
      \<and> is_in_progress (status job)
    \<longrightarrow> (\<exists>w' job'. wait ext (Some t) w job
                  = Some (Inl (ComputeHordeJobTimeoutError (uuid job) t (status job')), w', job')
          \<and> t < clock w' - clock w \<and> uuid job' = uuid job \<and> is_in_progress (status job')
          \<and> (w' = w \<and> job' = job
             \<or> (\<exists>r. length (sent w) < length (sent w')
                    \<and> reported ext (length (sent w') - 1) (uuid job) = Some r
                    \<and> status job' = r_status r))))
   \<and> (\<not> is_in_progress (status job) \<longrightarrow> wait ext timeout w job = Some (Inr (), w, job))
   \<and> (is_in_progress (status job)
      \<and> (case timeout of None \<Rightarrow> True | Some t' \<Rightarrow> clock w - s \<le> t')
      \<and> reported ext (length (sent w)) (uuid job) = Some r \<and> \<not> is_in_progress (r_status r)
    \<longrightarrow> wait_loop ext timeout s w job
        = Some (Inr (),
                sleep ext JOB_REFRESH_INTERVAL (after_request ext w (job_request (uuid job))),
                refreshed job r))"
proof (intro conjI impI)
  assume a: "(\<forall>k. 0 \<le> round_trip ext k) \<and> (\<forall>k. 0 \<le> sleep_lag ext k)
      \<and> (\<forall>k. \<exists>r. reported ext k (uuid job) = Some r \<and> is_in_progress (r_status r))
      \<and> is_in_progress (status job)"
  obtain n where "t / 3 < real n"
    using reals_Archimedean2 by blast
  then have n: "t - (clock w - clock w) < 3 * real n" by simp
  from a have rt: "\<forall>k. 0 \<le> round_trip ext k" and lag: "\<forall>k. 0 \<le> sleep_lag ext k"
    and rep: "\<forall>k. \<exists>r. reported ext k (uuid job) = Some r \<and> is_in_progress (r_status r)"
    and ip: "is_in_progress (status job)"
    by blast+
  from wait_loop_times_out [OF rt lag rep refl ip n]
  show "\<exists>w' job'. wait ext (Some t) w job
                  = Some (Inl (ComputeHordeJobTimeoutError (uuid job) t (status job')), w', job')
          \<and> t < clock w' - clock w \<and> uuid job' = uuid job \<and> is_in_progress (status job')
          \<and> (w' = w \<and> job' = job
             \<or> (\<exists>r. length (sent w) < length (sent w')
                    \<and> reported ext (length (sent w') - 1) (uuid job) = Some r
                    \<and> status job' = r_status r))"
    unfolding wait_def .
next
  assume "\<not> is_in_progress (status job)"
  then show "wait ext timeout w job = Some (Inr (), w, job)"
    unfolding wait_def by (rule wait_loop_terminal)
next
  assume a: "is_in_progress (status job)
      \<and> (case timeout of None \<Rightarrow> True | Some t' \<Rightarrow> clock w - s \<le> t')
      \<and> reported ext (length (sent w)) (uuid job) = Some r \<and> \<not> is_in_progress (r_status r)"
  then have "wait_loop ext timeout s w job
       = wait_loop ext timeout s
           (sleep ext JOB_REFRESH_INTERVAL (after_request ext w (job_request (uuid job))))
           (refreshed job r)"
    using wait_loop_poll [where job = job and timeout = timeout and w = w and s = s and ext = ext and r = r] by blast
  also have "\<dots> = Some (Inr (),
                sleep ext JOB_REFRESH_INTERVAL (after_request ext w (job_request (uuid job))),
                refreshed job r)"
    using a by (intro wait_loop_terminal) (simp add: refreshed_def)
  finally show "wait_loop ext timeout s w job
        = Some (Inr (),
                sleep ext JOB_REFRESH_INTERVAL (after_request ext w (job_request (uuid job))),
                refreshed job r)" .
qed

lemma pending_reported:
  "reported (example_externals (\<lambda>k. \<lparr>status_code = 200, response_text = ''PENDING''\<rparr>)) k ''j1''
   = Some \<lparr>r_uuid = ''j1'', r_status = PENDING, r_stdout = []\<rparr>"
  by (simp add: reported_def example_externals_def example_parser_def is_success_def)

lemma wait_pending_example:
  "wait (example_externals (\<lambda>k. \<lparr>status_code = 200, response_text = ''PENDING''\<rparr>)) (Some 1)
      \<lparr>clock = 0, sent = []\<rparr> \<lparr>uuid = ''j1'', status = PENDING, result = None\<rparr>
   = Some (Inl (ComputeHordeJobTimeoutError ''j1'' 1 PENDING),
           \<lparr>clock = 3, sent = [job_request ''j1'']\<rparr>,
           \<lparr>uuid = ''j1'', status = PENDING, result = None\<rparr>)"
proof -
  let ?e = "example_externals (\<lambda>k. \<lparr>status_code = 200, response_text = ''PENDING''\<rparr>)"
  let ?j = "\<lparr>uuid = ''j1'', status = PENDING, result = None\<rparr>"
  have r: "reported ?e (length (sent \<lparr>clock = 0, sent = []\<rparr>)) (uuid ?j)
             = Some \<lparr>r_uuid = ''j1'', r_status = PENDING, r_stdout = []\<rparr>"
    using pending_reported [of 0] by simp
  have w1: "sleep ?e JOB_REFRESH_INTERVAL (after_request ?e \<lparr>clock = 0, sent = []\<rparr> (job_request ''j1''))
            = \<lparr>clock = 3, sent = [job_request ''j1'']\<rparr>"
    by (simp add: sleep_def after_request_def JOB_REFRESH_INTERVAL_def example_externals_def)
  have j1: "refreshed ?j \<lparr>r_uuid = ''j1'', r_status = PENDING, r_stdout = []\<rparr> = ?j"
    by (simp add: refreshed_def)
  have "wait ?e (Some 1) \<lparr>clock = 0, sent = []\<rparr> ?j
        = wait_loop ?e (Some 1) 0 \<lparr>clock = 3, sent = [job_request ''j1'']\<rparr> ?j"
    unfolding wait_def
    using wait_loop_poll [where job = ?j and timeout = "Some 1" and w = "\<lparr>clock = 0, sent = []\<rparr>" and s = 0 and ext = ?e, OF _ _ r]
    by (simp add: w1 j1)
  also have "\<dots> = Some (Inl (ComputeHordeJobTimeoutError ''j1'' 1 PENDING),
           \<lparr>clock = 3, sent = [job_request ''j1'']\<rparr>, ?j)"
    using wait_loop_timed_out [where job = ?j and t = 1 and w = "\<lparr>clock = 3, sent = [job_request ''j1'']\<rparr>" and s = 0 and ext = ?e]
    by simp
  finally show ?thesis .
qed

theorem wait_times_out_witness:
  "wait (example_externals (\<lambda>k. \<lparr>status_code = 200, response_text = ''PENDING''\<rparr>)) (Some 1)
      \<lparr>clock = 0, sent = []\<rparr> \<lparr>uuid = ''j1'', status = PENDING, result = None\<rparr>
   = Some (Inl (ComputeHordeJobTimeoutError ''j1'' 1 PENDING),
           \<lparr>clock = 3, sent = [job_request ''j1'']\<rparr>,
           \<lparr>uuid = ''j1'', status = PENDING, result = None\<rparr>)
   \<and> (\<exists>w' job'. wait (example_externals (\<lambda>k. \<lparr>status_code = 200, response_text = ''PENDING''\<rparr>))
                   (Some 1) \<lparr>clock = 0, sent = []\<rparr>
                   \<lparr>uuid = ''j1'', status = PENDING, result = None\<rparr>
                 = Some (Inl (ComputeHordeJobTimeoutError ''j1'' 1 (status job')), w', job')
         \<and> 1 < clock w' \<and> is_in_progress (status job'))
   \<and> wait (example_externals (\<lambda>k. \<lparr>status_code = 200, response_text = ''PENDING''\<rparr>)) None
        \<lparr>clock = 0, sent = []\<rparr> \<lparr>uuid = ''j1'', status = COMPLETED, result = Some ''hi''\<rparr>
     = Some (Inr (), \<lparr>clock = 0, sent = []\<rparr>,
             \<lparr>uuid = ''j1'', status = COMPLETED, result = Some ''hi''\<rparr>)
   \<and> wait_loop (example_externals (\<lambda>k. \<lparr>status_code = 200, response_text = ''COMPLETED''\<rparr>))
        (Some 1) 0 \<lparr>clock = 0, sent = []\<rparr> \<lparr>uuid = ''j1'', status = PENDING, result = None\<rparr>
     = Some (Inr (), \<lparr>clock = 3, sent = [job_request ''j1'']\<rparr>,
             \<lparr>uuid = ''j1'', status = COMPLETED, result = Some ''hi''\<rparr>)"
proof -
  let ?e = "example_externals (\<lambda>k. \<lparr>status_code = 200, response_text = ''PENDING''\<rparr>)"
  let ?c = "example_externals (\<lambda>k. \<lparr>status_code = 200, response_text = ''COMPLETED''\<rparr>)"
  let ?w = "\<lparr>clock = 0, sent = []\<rparr>"
  let ?j = "\<lparr>uuid = ''j1'', status = PENDING, result = None\<rparr>"
  let ?d = "\<lparr>uuid = ''j1'', status = COMPLETED, result = Some ''hi''\<rparr>"
  have h: "(\<forall>k. 0 \<le> round_trip ?e k) \<and> (\<forall>k. 0 \<le> sleep_lag ?e k)
      \<and> (\<forall>k. \<exists>r. reported ?e k (uuid ?j) = Some r \<and> is_in_progress (r_status r))
      \<and> is_in_progress (status ?j)"
    using pending_reported by (simp add: example_externals_def)
  from wait_times_out [where ext = ?e and job = ?j and t = 1 and w = ?w] h
  have a: "\<exists>w' job'. wait ?e (Some 1) ?w ?j
                 = Some (Inl (ComputeHordeJobTimeoutError ''j1'' 1 (status job')), w', job')
         \<and> 1 < clock w' \<and> is_in_progress (status job')"
    by (simp del: split_paired_Ex) blast
  have b: "wait ?e None ?w ?d = Some (Inr (), ?w, ?d)"
    using wait_times_out [where ext = ?e and job = ?d and w = ?w and timeout = None] by simp
  have rc: "reported ?c (length (sent ?w)) (uuid ?j)
             = Some \<lparr>r_uuid = ''j1'', r_status = COMPLETED, r_stdout = ''hi''\<rparr>"
    by (simp add: reported_def example_externals_def example_parser_def is_success_def)
  have c: "wait_loop ?c (Some 1) 0 ?w ?j
     = Some (Inr (), \<lparr>clock = 3, sent = [job_request ''j1'']\<rparr>, ?d)"
    using wait_times_out [where ext = ?c and job = ?j and w = ?w and timeout = "Some 1" and s = 0 and r = "\<lparr>r_uuid = ''j1'', r_status = COMPLETED, r_stdout = ''hi''\<rparr>"] rc
    by (simp add: sleep_def after_request_def JOB_REFRESH_INTERVAL_def example_externals_def
          refreshed_def)
  from wait_pending_example a b c show ?thesis by (intro conjI)
qed

end
